theory Spec2Isabelle
  imports Main
begin

section \<open>The half-edge mesh used by the guard\<close>

text \<open>
  \<^verbatim>\<open>ManifoldGuard\<close> (manifold\_guard.cpp) works on a \<^verbatim>\<open>SurfaceMesh\<close> through the pointer
  \<^verbatim>\<open>mesh_\<close>. The guard calls eleven operations of the mesh; they are the fields of the
  record below, over a mesh state \<open>'m\<close>, a position type \<open>'p\<close> (\<^verbatim>\<open>vec3\<close>) and a
  half-edge handle type \<open>'h\<close>. Every function of the guard takes such a record as its
  first argument, so every theorem about the guard holds for any mesh.

  A vertex handle wraps an index; \<^verbatim>\<open>add_face\<close> builds handles from the caller's
  \<^verbatim>\<open>unsigned int\<close> indices, so handles are natural numbers here. A face handle is
  \<open>Some f\<close>, or \<open>None\<close> for the invalid handle \<^verbatim>\<open>SurfaceMesh::Face()\<close>; likewise
  \<^verbatim>\<open>find_halfedge\<close> answers \<open>None\<close> for a handle that is not \<^verbatim>\<open>is_valid()\<close>.
\<close>

type_synonym vertex = nat
type_synonym face = "nat option"

record ('m, 'p, 'h) surface_mesh =
  sm_vertices :: "'m \<Rightarrow> vertex list"
  sm_add_vertex :: "'p \<Rightarrow> 'm \<Rightarrow> vertex \<times> 'm"
  sm_add_face :: "vertex list \<Rightarrow> 'm \<Rightarrow> face \<times> 'm"
  sm_find_halfedge :: "'m \<Rightarrow> vertex \<Rightarrow> vertex \<Rightarrow> 'h option"
  sm_is_boundary_h :: "'m \<Rightarrow> 'h \<Rightarrow> bool"
  sm_is_boundary :: "'m \<Rightarrow> vertex \<Rightarrow> bool"
  sm_is_manifold :: "'m \<Rightarrow> vertex \<Rightarrow> bool"
  sm_is_isolated :: "'m \<Rightarrow> vertex \<Rightarrow> bool"
  sm_delete_vertex :: "vertex \<Rightarrow> 'm \<Rightarrow> 'm"
  sm_garbage_collection :: "'m \<Rightarrow> 'm"
  sm_point :: "'m \<Rightarrow> vertex \<Rightarrow> 'p"

section \<open>The guard's state\<close>

text \<open>
  The members of \<^verbatim>\<open>ManifoldGuard\<close>, without the trailing underscore of the C++ names.
  The five counters are C++ \<^verbatim>\<open>int\<close>s that are only reset to 0 and incremented; their
  overflow (undefined behaviour past \<open>2^31 - 1\<close> defects) is not modelled.
  \<^verbatim>\<open>copies_\<close> maps a vertex to the vector of its copies.
\<close>

record 'm manifold_guard =
  mesh :: 'm
  num_faces_less_three_vertices :: int
  num_faces_duplicated_vertices :: int
  num_non_manifold_edges :: int
  num_non_manifold_vertices :: int
  num_isolated_vertices :: int
  input_face_vertices :: "vertex list"
  face_vertices :: "vertex list"
  copies :: "vertex \<rightharpoonup> vertex list"

section \<open>begin, add\_vertex, copy\_vertex, halfedge\_is\_legel\<close>

text \<open>\<^verbatim>\<open>ManifoldGuard::begin()\<close>, lines 42-53.\<close>

definition begin_guard :: "'m manifold_guard \<Rightarrow> 'm manifold_guard" where
  "begin_guard g =
     g\<lparr>num_faces_less_three_vertices := 0,
       num_faces_duplicated_vertices := 0,
       num_non_manifold_edges := 0,
       num_non_manifold_vertices := 0,
       num_isolated_vertices := 0,
       input_face_vertices := [],
       face_vertices := [],
       copies := Map.empty\<rparr>"

text \<open>\<^verbatim>\<open>ManifoldGuard::add_vertex\<close>, lines 109-111.\<close>

definition add_vertex ::
  "('m, 'p, 'h) surface_mesh \<Rightarrow> 'p \<Rightarrow> 'm manifold_guard \<Rightarrow> vertex \<times> 'm manifold_guard" where
  "add_vertex M p g =
     (let (v, m') = sm_add_vertex M p (mesh g) in (v, g\<lparr>mesh := m'\<rparr>))"

text \<open>
  \<^verbatim>\<open>ManifoldGuard::copy_vertex\<close>, lines 246-252. \<^verbatim>\<open>copies_[v].push_back(new_v)\<close>
  creates the entry of \<open>v\<close> when there is none.
\<close>

definition copy_vertex ::
  "('m, 'p, 'h) surface_mesh \<Rightarrow> vertex \<Rightarrow> 'm manifold_guard \<Rightarrow> vertex \<times> 'm manifold_guard" where
  "copy_vertex M v g =
     (let (new_v, m') = sm_add_vertex M (sm_point M (mesh g) v) (mesh g) in
        (new_v,
         g\<lparr>mesh := m',
           copies := (copies g)(v \<mapsto> (case copies g v of None \<Rightarrow> [] | Some cs \<Rightarrow> cs) @ [new_v])\<rparr>))"

text \<open>\<^verbatim>\<open>ManifoldGuard::halfedge_is_legel\<close>, lines 231-243.\<close>

definition halfedge_is_legel ::
  "('m, 'p, 'h) surface_mesh \<Rightarrow> 'm \<Rightarrow> vertex \<Rightarrow> vertex \<Rightarrow> bool" where
  "halfedge_is_legel M m s t =
     (if (case sm_find_halfedge M m s t of
            None \<Rightarrow> False
          | Some h \<Rightarrow> \<not> sm_is_boundary_h M m h)
      then False
      else if \<not> sm_is_boundary M m s \<or> \<not> sm_is_boundary M m t then False
      else True)"

section \<open>find\_or\_duplicate\_edge\<close>

text \<open>
  The three loops over existing copies (lines 169-177, 182-190 and 195-206). Each answers
  the first vertex (or pair) that makes the edge legal, in the order of the vectors, or
  \<open>None\<close> when the loop runs to its end.
\<close>

fun scan_copies_of_s ::
  "('m, 'p, 'h) surface_mesh \<Rightarrow> 'm \<Rightarrow> vertex \<Rightarrow> vertex list \<Rightarrow> vertex option" where
  "scan_copies_of_s M m t [] = None"
| "scan_copies_of_s M m t (v # vs) =
     (if halfedge_is_legel M m v t then Some v else scan_copies_of_s M m t vs)"

fun scan_copies_of_t ::
  "('m, 'p, 'h) surface_mesh \<Rightarrow> 'm \<Rightarrow> vertex \<Rightarrow> vertex list \<Rightarrow> vertex option" where
  "scan_copies_of_t M m s [] = None"
| "scan_copies_of_t M m s (v # vs) =
     (if halfedge_is_legel M m s v then Some v else scan_copies_of_t M m s vs)"

fun scan_copies_of_both ::
  "('m, 'p, 'h) surface_mesh \<Rightarrow> 'm \<Rightarrow> vertex list \<Rightarrow> vertex list \<Rightarrow> (vertex \<times> vertex) option" where
  "scan_copies_of_both M m [] ct = None"
| "scan_copies_of_both M m (vs # cs) ct =
     (case scan_copies_of_t M m vs ct of
        Some vt \<Rightarrow> Some (vs, vt)
      | None \<Rightarrow> scan_copies_of_both M m cs ct)"

text \<open>
  Lines 165-207: the search among the existing copies. \<open>Some g'\<close> is a \<^verbatim>\<open>return\<close> from
  inside one of the loops, with the working list rewritten; \<open>None\<close> is falling through to
  line 209. The keys looked up in \<^verbatim>\<open>copies_\<close> are the current entries
  \<^verbatim>\<open>face_vertices_[s]\<close> and \<^verbatim>\<open>face_vertices_[t]\<close>. The vector's \<^verbatim>\<open>operator[]\<close> is
  unchecked: \<^verbatim>\<open>add_face\<close> calls with \<open>s\<close> and \<open>t\<close> below the size of both buffers, and
  the theorems below assume it.
\<close>

definition try_existing_copies ::
  "('m, 'p, 'h) surface_mesh \<Rightarrow> nat \<Rightarrow> nat \<Rightarrow> 'm manifold_guard \<Rightarrow> 'm manifold_guard option" where
  "try_existing_copies M s t g =
     (let fv = face_vertices g; m = mesh g in
      case (case copies g (fv ! s) of
              None \<Rightarrow> None
            | Some cs \<Rightarrow> scan_copies_of_s M m (fv ! t) cs) of
        Some v \<Rightarrow> Some (g\<lparr>face_vertices := fv[s := v]\<rparr>)
      | None \<Rightarrow>
     (case (case copies g (fv ! t) of
              None \<Rightarrow> None
            | Some ct \<Rightarrow> scan_copies_of_t M m (fv ! s) ct) of
        Some v \<Rightarrow> Some (g\<lparr>face_vertices := fv[t := v]\<rparr>)
      | None \<Rightarrow>
     (case (case copies g (fv ! s) of
              None \<Rightarrow> None
            | Some cs \<Rightarrow>
                (case copies g (fv ! t) of
                   None \<Rightarrow> None
                 | Some ct \<Rightarrow> scan_copies_of_both M m cs ct)) of
        Some (vs, vt) \<Rightarrow> Some (g\<lparr>face_vertices := fv[s := vs, t := vt]\<rparr>)
      | None \<Rightarrow> None)))"

text \<open>
  The statement \<^verbatim>\<open>face_vertices_[i] = copy_vertex(input_face_vertices_[i])\<close> of lines
  212, 217, 224 and 226: the copy is made of the entry of the input list.
\<close>

definition replace_by_copy ::
  "('m, 'p, 'h) surface_mesh \<Rightarrow> nat \<Rightarrow> 'm manifold_guard \<Rightarrow> 'm manifold_guard" where
  "replace_by_copy M i g =
     (let (v, g') = copy_vertex M (input_face_vertices g ! i) g in
        g'\<lparr>face_vertices := (face_vertices g')[i := v]\<rparr>)"

text \<open>
  Lines 216-220 and 211-220: copying the endpoint that is a closed disk. \<open>Inl g'\<close> is a
  \<^verbatim>\<open>return\<close> (the edge became legal), \<open>Inr g'\<close> is falling through to line 222.
\<close>

definition copy_closed_disk_t ::
  "('m, 'p, 'h) surface_mesh \<Rightarrow> nat \<Rightarrow> nat \<Rightarrow> 'm manifold_guard \<Rightarrow>
     'm manifold_guard + 'm manifold_guard" where
  "copy_closed_disk_t M s t g =
     (if \<not> sm_is_boundary M (mesh g) (face_vertices g ! t) then
        (let g' = replace_by_copy M t g in
           if halfedge_is_legel M (mesh g') (face_vertices g' ! s) (face_vertices g' ! t)
           then Inl g' else Inr g')
      else Inr g)"

definition copy_closed_disk ::
  "('m, 'p, 'h) surface_mesh \<Rightarrow> nat \<Rightarrow> nat \<Rightarrow> 'm manifold_guard \<Rightarrow>
     'm manifold_guard + 'm manifold_guard" where
  "copy_closed_disk M s t g =
     (if \<not> sm_is_boundary M (mesh g) (face_vertices g ! s) then
        (let g' = replace_by_copy M s g in
           if halfedge_is_legel M (mesh g') (face_vertices g' ! s) (face_vertices g' ! t)
           then Inl g' else copy_closed_disk_t M s t g')
      else copy_closed_disk_t M s t g)"

text \<open>Lines 222-226: "we simple copy both".\<close>

definition copy_both ::
  "('m, 'p, 'h) surface_mesh \<Rightarrow> nat \<Rightarrow> nat \<Rightarrow> 'm manifold_guard \<Rightarrow> 'm manifold_guard" where
  "copy_both M s t g =
     (let g1 = (if face_vertices g ! s = input_face_vertices g ! s
                then replace_by_copy M s g else g)
      in if face_vertices g1 ! t = input_face_vertices g1 ! t
         then replace_by_copy M t g1 else g1)"

text \<open>\<^verbatim>\<open>ManifoldGuard::find_or_duplicate_edge\<close>, lines 157-228.\<close>

definition find_or_duplicate_edge ::
  "('m, 'p, 'h) surface_mesh \<Rightarrow> nat \<Rightarrow> nat \<Rightarrow> 'm manifold_guard \<Rightarrow> 'm manifold_guard" where
  "find_or_duplicate_edge M s t g =
     (if halfedge_is_legel M (mesh g) (face_vertices g ! s) (face_vertices g ! t) then g
      else
        (let g0 = g\<lparr>num_non_manifold_edges := num_non_manifold_edges g + 1\<rparr> in
         case try_existing_copies M s t g0 of
           Some g' \<Rightarrow> g'
         | None \<Rightarrow>
             (case copy_closed_disk M s t g0 of
                Inl g' \<Rightarrow> g'
              | Inr g' \<Rightarrow> copy_both M s t g')))"

section \<open>add\_face\<close>

text \<open>
  Lines 124-131: the two nested loops that look for a pair \<open>i < j\<close> with
  \<^verbatim>\<open>vertices[i] == vertices[j]\<close>.
\<close>

fun has_duplicated_vertices :: "nat list \<Rightarrow> bool" where
  "has_duplicated_vertices [] = False"
| "has_duplicated_vertices (x # xs) = (x \<in> set xs \<or> has_duplicated_vertices xs)"

text \<open>
  \<^verbatim>\<open>ManifoldGuard::add_face\<close>, lines 114-154. The result is the face handle and the
  guard after the call.
\<close>

definition add_face ::
  "('m, 'p, 'h) surface_mesh \<Rightarrow> nat list \<Rightarrow> 'm manifold_guard \<Rightarrow> face \<times> 'm manifold_guard" where
  "add_face M vertices g =
     (let nb_vertices = length vertices in
      if nb_vertices < 3 then
        (None, g\<lparr>num_faces_less_three_vertices := num_faces_less_three_vertices g + 1\<rparr>)
      else if has_duplicated_vertices vertices then
        (None, g\<lparr>num_faces_duplicated_vertices := num_faces_duplicated_vertices g + 1\<rparr>)
      else
        (let g1 = g\<lparr>input_face_vertices := vertices, face_vertices := vertices\<rparr>;
             g2 = fold (\<lambda>s. find_or_duplicate_edge M s ((s + 1) mod nb_vertices))
                    [0..<nb_vertices] g1;
             (face, m') = sm_add_face M (face_vertices g2) (mesh g2)
         in (face, g2\<lparr>mesh := m'\<rparr>)))"

section \<open>finish\<close>

text \<open>
  \<^verbatim>\<open>std::to_string\<close> on an \<^verbatim>\<open>int\<close>: the decimal digits, after a minus sign for a
  negative number.
\<close>

fun nat_to_string :: "nat \<Rightarrow> string" where
  "nat_to_string n =
     (if n < 10 then [''0123456789'' ! n]
      else nat_to_string (n div 10) @ [''0123456789'' ! (n mod 10)])"

declare nat_to_string.simps [simp del]

definition to_string :: "int \<Rightarrow> string" where
  "to_string i = (if i < 0 then CHR ''-'' # nat_to_string (nat (- i)) else nat_to_string (nat i))"

text \<open>
  One of the five blocks \<^verbatim>\<open>if (n > 0) { msg += "\n\t" + std::to_string(n) + text;
  report = true; }\<close> of lines 68-95, on the pair of \<^verbatim>\<open>msg\<close> and \<^verbatim>\<open>report\<close>.
\<close>

definition report_counter :: "int \<Rightarrow> string \<Rightarrow> string \<times> bool \<Rightarrow> string \<times> bool" where
  "report_counter n txt r =
     (if n > 0 then (fst r @ [CHR 0x0A, CHR 0x09] @ to_string n @ txt, True) else r)"

text \<open>
  The bodies of the two loops over \<^verbatim>\<open>mesh_->vertices()\<close>, lines 60-65 and 88-91. The
  first loop deletes vertices of the container it walks; it is modelled as a walk over
  the handles the container holds when the loop starts, each tested on the mesh as the
  deletions so far have left it.
\<close>

definition delete_if_isolated ::
  "('m, 'p, 'h) surface_mesh \<Rightarrow> vertex \<Rightarrow> 'm manifold_guard \<Rightarrow> 'm manifold_guard" where
  "delete_if_isolated M v g =
     (if sm_is_isolated M (mesh g) v then
        g\<lparr>mesh := sm_delete_vertex M v (mesh g),
          num_isolated_vertices := num_isolated_vertices g + 1\<rparr>
      else g)"

definition count_if_non_manifold ::
  "('m, 'p, 'h) surface_mesh \<Rightarrow> vertex \<Rightarrow> 'm manifold_guard \<Rightarrow> 'm manifold_guard" where
  "count_if_non_manifold M v g =
     (if \<not> sm_is_manifold M (mesh g) v then
        g\<lparr>num_non_manifold_vertices := num_non_manifold_vertices g + 1\<rparr>
      else g)"

text \<open>
  \<^verbatim>\<open>ManifoldGuard::finish\<close>, lines 56-106. The result is the guard after the call and
  what \<^verbatim>\<open>LOG_IF(WARNING, report) << msg\<close> writes: \<open>Some msg\<close>, or \<open>None\<close> when nothing
  is logged.
\<close>

definition finish ::
  "('m, 'p, 'h) surface_mesh \<Rightarrow> 'm manifold_guard \<Rightarrow> 'm manifold_guard \<times> string option" where
  "finish M g =
     (let r0 = (''mesh has topological issues:'', False);
          g1 = fold (delete_if_isolated M) (sm_vertices M (mesh g)) g;
          g2 = g1\<lparr>mesh := sm_garbage_collection M (mesh g1)\<rparr>;
          r1 = report_counter (num_isolated_vertices g2) '' isolated vertices (removed)'' r0;
          r2 = report_counter (num_faces_less_three_vertices g2)
                 '' faces with less than 3 vertices (ignored)'' r1;
          r3 = report_counter (num_faces_duplicated_vertices g2)
                 '' faces with duplicated vertices (ignored)'' r2;
          r4 = report_counter (num_non_manifold_edges g2) '' non_manifold edges (fixed)'' r3;
          g3 = fold (count_if_non_manifold M) (sm_vertices M (mesh g2)) g2;
          r5 = report_counter (num_non_manifold_vertices g3)
                 '' non_manifold vertices (not fixed)'' r4
      in (g3, if snd r5 then Some (fst r5) else None))"

section \<open>A half-edge mesh to run the guard on\<close>

text \<open>
  The class \<^verbatim>\<open>SurfaceMesh\<close> (easy3d/core/surface\_mesh.h) is not among the sources. Every
  definition of this section is modelled from what the specification says of the
  half-edge mesh collaborator (its sections 3 and 6), and is used only to run the guard
  on concrete meshes.
\<close>

text \<open>
  Modelled from the spec: the state of the missing class \<^verbatim>\<open>SurfaceMesh\<close>. A mesh is its
  vertex table (position and deleted flag, the handle being the index) and its faces,
  each an ordered cyclic sequence of vertex handles.
\<close>

record 'p halfedge_mesh =
  hm_verts :: "('p \<times> bool) list"
  hm_faces :: "vertex list list"

text \<open>
  Modelled from the spec: the half-edges of the missing \<^verbatim>\<open>SurfaceMesh\<close> that are bound to
  a face, which are the consecutive pairs of the faces; its vertex range
  \<^verbatim>\<open>vertices()\<close>, the handles not deleted; and \<^verbatim>\<open>add_vertex\<close>, which always succeeds
  with a new handle.
\<close>

definition hm_interior :: "'p halfedge_mesh \<Rightarrow> (vertex \<times> vertex) list" where
  "hm_interior m = concat (map (\<lambda>f. zip f (rotate1 f)) (hm_faces m))"

definition hm_vertices :: "'p halfedge_mesh \<Rightarrow> vertex list" where
  "hm_vertices m = filter (\<lambda>v. \<not> snd (hm_verts m ! v)) [0..<length (hm_verts m)]"

definition hm_add_vertex :: "'p \<Rightarrow> 'p halfedge_mesh \<Rightarrow> vertex \<times> 'p halfedge_mesh" where
  "hm_add_vertex p m = (length (hm_verts m), m\<lparr>hm_verts := hm_verts m @ [(p, False)]\<rparr>)"

text \<open>
  Modelled from the spec: \<^verbatim>\<open>find_halfedge\<close> and \<^verbatim>\<open>is_boundary\<close> on a half-edge, of the
  missing \<^verbatim>\<open>SurfaceMesh\<close>. A half-edge between two vertices exists when it or its
  opposite is bound to a face, and is a boundary half-edge when its own face slot is
  empty.
\<close>

definition hm_find_halfedge ::
  "'p halfedge_mesh \<Rightarrow> vertex \<Rightarrow> vertex \<Rightarrow> (vertex \<times> vertex) option" where
  "hm_find_halfedge m s t =
     (if (s, t) \<in> set (hm_interior m) \<or> (t, s) \<in> set (hm_interior m)
      then Some (s, t) else None)"

definition hm_is_boundary_h :: "'p halfedge_mesh \<Rightarrow> vertex \<times> vertex \<Rightarrow> bool" where
  "hm_is_boundary_h m h = (h \<notin> set (hm_interior m))"

text \<open>
  Modelled from the spec: \<^verbatim>\<open>is_isolated\<close> of the missing \<^verbatim>\<open>SurfaceMesh\<close>: no incident
  edge.
\<close>

definition hm_is_isolated :: "'p halfedge_mesh \<Rightarrow> vertex \<Rightarrow> bool" where
  "hm_is_isolated m v = (v \<notin> set (concat (hm_faces m)))"

text \<open>
  Modelled from the spec: \<^verbatim>\<open>is_boundary\<close> on a vertex and \<^verbatim>\<open>is_manifold\<close>, of the
  missing \<^verbatim>\<open>SurfaceMesh\<close>, from the outgoing boundary half-edges of \<open>v\<close> (each given by
  the vertex it points to). A vertex is a boundary vertex when it is isolated or has such
  a half-edge, and manifold when it has at most one.
\<close>

definition hm_gaps :: "'p halfedge_mesh \<Rightarrow> vertex \<Rightarrow> vertex list" where
  "hm_gaps m v =
     map fst (filter (\<lambda>e. snd e = v \<and> (v, fst e) \<notin> set (hm_interior m)) (hm_interior m))"

definition hm_is_boundary :: "'p halfedge_mesh \<Rightarrow> vertex \<Rightarrow> bool" where
  "hm_is_boundary m v = (hm_is_isolated m v \<or> hm_gaps m v \<noteq> [])"

definition hm_is_manifold :: "'p halfedge_mesh \<Rightarrow> vertex \<Rightarrow> bool" where
  "hm_is_manifold m v = (length (hm_gaps m v) < 2)"

text \<open>
  Modelled from the spec: \<^verbatim>\<open>add_face\<close> of the missing \<^verbatim>\<open>SurfaceMesh\<close>. The insertion is
  rejected, with the invalid handle and the mesh unchanged, when a vertex of the face is
  not a boundary vertex or an edge of the face is already bound to a face (as for an
  exact duplicate of a face).
\<close>

definition hm_add_face :: "vertex list \<Rightarrow> 'p halfedge_mesh \<Rightarrow> face \<times> 'p halfedge_mesh" where
  "hm_add_face vs m =
     (if list_all (\<lambda>e. hm_is_boundary m (fst e) \<and> e \<notin> set (hm_interior m))
           (zip vs (rotate1 vs))
      then (Some (length (hm_faces m)), m\<lparr>hm_faces := hm_faces m @ [vs]\<rparr>)
      else (None, m))"

text \<open>
  Modelled from the spec: \<^verbatim>\<open>delete_vertex\<close> and \<^verbatim>\<open>garbage_collection\<close> of the missing
  \<^verbatim>\<open>SurfaceMesh\<close>. Deleting a vertex marks it deleted and removes its incident faces;
  compaction drops the deleted vertices and renumbers the remaining ones in order.
\<close>

definition hm_delete_vertex :: "vertex \<Rightarrow> 'p halfedge_mesh \<Rightarrow> 'p halfedge_mesh" where
  "hm_delete_vertex v m =
     m\<lparr>hm_verts := (hm_verts m)[v := (fst (hm_verts m ! v), True)],
       hm_faces := filter (\<lambda>f. v \<notin> set f) (hm_faces m)\<rparr>"

definition hm_garbage_collection :: "'p halfedge_mesh \<Rightarrow> 'p halfedge_mesh" where
  "hm_garbage_collection m =
     m\<lparr>hm_verts := filter (\<lambda>x. \<not> snd x) (hm_verts m),
       hm_faces := map (map (\<lambda>v. length (filter (\<lambda>u. u < v) (hm_vertices m)))) (hm_faces m)\<rparr>"

text \<open>
  Modelled from the spec: the position table \<^verbatim>\<open>"v:point"\<close> of the missing
  \<^verbatim>\<open>SurfaceMesh\<close>. Reading it at a handle out of range is undefined behaviour in C++ and
  unspecified here; every handle read below is in range.
\<close>

definition hm_point :: "'p halfedge_mesh \<Rightarrow> vertex \<Rightarrow> 'p" where
  "hm_point m v = fst (hm_verts m ! v)"

text \<open>Modelled from the spec: the operations above, as the mesh the guard is run on.\<close>

definition hm_ops :: "('p halfedge_mesh, 'p, vertex \<times> vertex) surface_mesh" where
  "hm_ops =
     \<lparr>sm_vertices = hm_vertices,
      sm_add_vertex = hm_add_vertex,
      sm_add_face = hm_add_face,
      sm_find_halfedge = hm_find_halfedge,
      sm_is_boundary_h = hm_is_boundary_h,
      sm_is_boundary = hm_is_boundary,
      sm_is_manifold = hm_is_manifold,
      sm_is_isolated = hm_is_isolated,
      sm_delete_vertex = hm_delete_vertex,
      sm_garbage_collection = hm_garbage_collection,
      sm_point = hm_point\<rparr>"

text \<open>
  A guard on the empty mesh after \<^verbatim>\<open>begin()\<close>, and the session that adds three vertices
  and the face \<open>[0, 1, 2]\<close>.
\<close>

definition guard0 :: "(int \<times> int \<times> int) halfedge_mesh manifold_guard" where
  "guard0 =
     begin_guard
       \<lparr>mesh = \<lparr>hm_verts = [], hm_faces = []\<rparr>,
        num_faces_less_three_vertices = 0,
        num_faces_duplicated_vertices = 0,
        num_non_manifold_edges = 0,
        num_non_manifold_vertices = 0,
        num_isolated_vertices = 0,
        input_face_vertices = [],
        face_vertices = [],
        copies = Map.empty\<rparr>"

definition guard3 :: "(int \<times> int \<times> int) halfedge_mesh manifold_guard" where
  "guard3 =
     snd (add_vertex hm_ops (0, 1, 0)
       (snd (add_vertex hm_ops (1, 0, 0)
         (snd (add_vertex hm_ops (0, 0, 0) guard0)))))"

definition guard_tri :: "(int \<times> int \<times> int) halfedge_mesh manifold_guard" where
  "guard_tri = snd (add_face hm_ops [0, 1, 2] guard3)"

text \<open>
  The same face added a second time, and then the guard as \<^verbatim>\<open>add_face([0,1,5])\<close> has
  it at line 142, after a fourth input vertex (handle 5) has been added.
\<close>

definition guard_twice :: "(int \<times> int \<times> int) halfedge_mesh manifold_guard" where
  "guard_twice = snd (add_face hm_ops [0, 1, 2] guard_tri)"

definition guard_fan :: "(int \<times> int \<times> int) halfedge_mesh manifold_guard" where
  "guard_fan =
     (snd (add_vertex hm_ops (0, 0, 1) guard_twice))
       \<lparr>input_face_vertices := [0, 1, 5], face_vertices := [0, 1, 5]\<rparr>"

text \<open>The session of \<open>guard_tri\<close> with one more vertex, which no face uses.\<close>

definition guard_iso :: "(int \<times> int \<times> int) halfedge_mesh manifold_guard" where
  "guard_iso = snd (add_vertex hm_ops (5, 5, 5) guard_tri)"

text \<open>
  A session on four vertices with the faces \<open>[2, 3, 1]\<close>, \<open>[1, 2, 3]\<close> and \<open>[0, 2, 3]\<close>
  (the second and the third each get two copies: 4 and 5, then 6 and 7).
\<close>

definition guard4 :: "(int \<times> int \<times> int) halfedge_mesh manifold_guard" where
  "guard4 = snd (add_vertex hm_ops (1, 1, 0) guard3)"

definition guard_three_faces :: "(int \<times> int \<times> int) halfedge_mesh manifold_guard" where
  "guard_three_faces =
     snd (add_face hm_ops [0, 2, 3]
       (snd (add_face hm_ops [1, 2, 3]
         (snd (add_face hm_ops [2, 3, 1] guard4)))))"

text \<open>
  The guard inside the next call \<^verbatim>\<open>add_face([2,3,0])\<close>: at line 142 before the loop,
  and when the loop reaches the edge back to the first vertex (\<open>s = 2\<close>, \<open>t = 0\<close>), after
  the edges \<open>s = 0\<close> and \<open>s = 1\<close> have been resolved.
\<close>

definition guard_edge0 :: "(int \<times> int \<times> int) halfedge_mesh manifold_guard" where
  "guard_edge0 = guard_three_faces\<lparr>input_face_vertices := [2, 3, 0], face_vertices := [2, 3, 0]\<rparr>"

definition guard_wrap :: "(int \<times> int \<times> int) halfedge_mesh manifold_guard" where
  "guard_wrap =
     find_or_duplicate_edge hm_ops 1 2 (find_or_duplicate_edge hm_ops 0 1 guard_edge0)"

section \<open>Relations between guard states, for the proofs\<close>

text \<open>
  \<open>grows c c'\<close>: every vector of the copy relation \<open>c\<close> is still there in \<open>c'\<close>, with
  vertices appended at its end only. \<open>keeps g g'\<close>: from \<open>g\<close> to \<open>g'\<close> the four counters
  other than the non-manifold-edge counter and the input list are unchanged, the working
  list has kept its size, the non-manifold-edge counter has not decreased and the copy
  relation has grown.
\<close>

definition grows :: "(vertex \<rightharpoonup> vertex list) \<Rightarrow> (vertex \<rightharpoonup> vertex list) \<Rightarrow> bool" where
  "grows c c' \<longleftrightarrow> (\<forall>k xs. c k = Some xs \<longrightarrow> (\<exists>ys. c' k = Some (xs @ ys)))"

definition keeps :: "'m manifold_guard \<Rightarrow> 'm manifold_guard \<Rightarrow> bool" where
  "keeps g g' \<longleftrightarrow>
     num_faces_less_three_vertices g' = num_faces_less_three_vertices g \<and>
     num_faces_duplicated_vertices g' = num_faces_duplicated_vertices g \<and>
     num_non_manifold_vertices g' = num_non_manifold_vertices g \<and>
     num_isolated_vertices g' = num_isolated_vertices g \<and>
     input_face_vertices g' = input_face_vertices g \<and>
     length (face_vertices g') = length (face_vertices g) \<and>
     num_non_manifold_edges g \<le> num_non_manifold_edges g' \<and>
     grows (copies g) (copies g')"

text \<open>\<open>only_at K c c'\<close>: the copy relations \<open>c\<close> and \<open>c'\<close> agree at every key outside \<open>K\<close>.\<close>

definition only_at :: "vertex set \<Rightarrow> (vertex \<rightharpoonup> vertex list) \<Rightarrow> (vertex \<rightharpoonup> vertex list) \<Rightarrow> bool" where
  "only_at K c c' \<longleftrightarrow> (\<forall>k. k \<notin> K \<longrightarrow> c' k = c k)"

section \<open>Lemmas on the steps of edge resolution\<close>

lemma has_duplicated_vertices_iff: "has_duplicated_vertices xs \<longleftrightarrow> \<not> distinct xs"
  by (induction xs) auto

lemma grows_refl: "grows c c"
  by (simp add: grows_def)

lemma grows_trans: "grows a b \<Longrightarrow> grows b c \<Longrightarrow> grows a c"
  unfolding grows_def by (metis append.assoc)

lemma grows_upd: "grows c (c(k \<mapsto> (case c k of None \<Rightarrow> [] | Some cs \<Rightarrow> cs) @ [v]))"
  by (auto simp: grows_def)

lemma keeps_refl: "keeps g g"
  by (simp add: keeps_def grows_refl)

lemma keeps_trans: "keeps a b \<Longrightarrow> keeps b c \<Longrightarrow> keeps a c"
  unfolding keeps_def using grows_trans by fastforce

lemma replace_by_copy_eq:
  "replace_by_copy M i g =
     g\<lparr>mesh := snd (sm_add_vertex M (sm_point M (mesh g) (input_face_vertices g ! i)) (mesh g)),
       copies := (copies g)(input_face_vertices g ! i \<mapsto>
          (case copies g (input_face_vertices g ! i) of None \<Rightarrow> [] | Some cs \<Rightarrow> cs) @
          [fst (sm_add_vertex M (sm_point M (mesh g) (input_face_vertices g ! i)) (mesh g))]),
       face_vertices := (face_vertices g)
          [i := fst (sm_add_vertex M (sm_point M (mesh g) (input_face_vertices g ! i)) (mesh g))]\<rparr>"
  by (simp add: replace_by_copy_def copy_vertex_def split: prod.split)

lemma replace_by_copy_keeps: "keeps g (replace_by_copy M i g)"
  by (simp add: replace_by_copy_eq keeps_def grows_upd)

lemma replace_by_copy_nme [simp]:
  "num_non_manifold_edges (replace_by_copy M i g) = num_non_manifold_edges g"
  by (simp add: replace_by_copy_eq)

lemma try_existing_copies_Some:
  "try_existing_copies M s t g = Some g' \<Longrightarrow> \<exists>fv. g' = g\<lparr>face_vertices := fv\<rparr> \<and> length fv = length (face_vertices g)"
  by (auto simp: try_existing_copies_def Let_def split: option.splits prod.splits)

lemma try_existing_copies_keeps:
  "try_existing_copies M s t g = Some g' \<Longrightarrow> keeps g g' \<and> num_non_manifold_edges g' = num_non_manifold_edges g"
  by (auto dest!: try_existing_copies_Some simp: keeps_def grows_refl)

lemma copy_closed_disk_t_keeps:
  "copy_closed_disk_t M s t g = r \<Longrightarrow> r = Inl g' \<or> r = Inr g' \<Longrightarrow>
     keeps g g' \<and> num_non_manifold_edges g' = num_non_manifold_edges g"
  by (auto simp: copy_closed_disk_t_def Let_def keeps_refl replace_by_copy_keeps split: if_splits)

lemma copy_closed_disk_keeps:
  assumes "copy_closed_disk M s t g = r" "r = Inl g' \<or> r = Inr g'"
  shows "keeps g g' \<and> num_non_manifold_edges g' = num_non_manifold_edges g"
proof (cases "sm_is_boundary M (mesh g) (face_vertices g ! s)")
  case True
  with assms show ?thesis
    using copy_closed_disk_t_keeps[of M s t g r g'] by (simp add: copy_closed_disk_def)
next
  case False
  let ?g1 = "replace_by_copy M s g"
  show ?thesis
  proof (cases "halfedge_is_legel M (mesh ?g1) (face_vertices ?g1 ! s) (face_vertices ?g1 ! t)")
    case True
    with False assms have "g' = ?g1" by (auto simp: copy_closed_disk_def Let_def)
    then show ?thesis by (simp add: replace_by_copy_keeps)
  next
    case legal: False
    with False assms have "copy_closed_disk_t M s t ?g1 = r" by (simp add: copy_closed_disk_def Let_def)
    from copy_closed_disk_t_keeps[OF this assms(2)] show ?thesis
      using keeps_trans[OF replace_by_copy_keeps] by fastforce
  qed
qed

lemma copy_both_keeps:
  "keeps g (copy_both M s t g) \<and> num_non_manifold_edges (copy_both M s t g) = num_non_manifold_edges g"
  by (auto simp: copy_both_def Let_def keeps_refl replace_by_copy_keeps intro: keeps_trans[OF replace_by_copy_keeps replace_by_copy_keeps])

lemma find_or_duplicate_edge_keeps: "keeps g (find_or_duplicate_edge M s t g)"
proof (cases "halfedge_is_legel M (mesh g) (face_vertices g ! s) (face_vertices g ! t)")
  case True
  then show ?thesis by (simp add: find_or_duplicate_edge_def keeps_refl)
next
  case False
  let ?g0 = "g\<lparr>num_non_manifold_edges := num_non_manifold_edges g + 1\<rparr>"
  have k0: "keeps g ?g0" by (simp add: keeps_def grows_refl)
  show ?thesis
  proof (cases "try_existing_copies M s t ?g0")
    case (Some g')
    with False have "find_or_duplicate_edge M s t g = g'"
      by (simp add: find_or_duplicate_edge_def)
    with try_existing_copies_keeps[OF Some] k0 show ?thesis
      using keeps_trans by blast
  next
    case None
    show ?thesis
    proof (cases "copy_closed_disk M s t ?g0")
      case (Inl g')
      with False None have "find_or_duplicate_edge M s t g = g'"
        by (simp add: find_or_duplicate_edge_def)
      with copy_closed_disk_keeps[OF Inl, of g'] k0 show ?thesis
        using keeps_trans by blast
    next
      case (Inr g')
      with False None have "find_or_duplicate_edge M s t g = copy_both M s t g'"
        by (simp add: find_or_duplicate_edge_def)
      with copy_closed_disk_keeps[OF Inr, of g'] copy_both_keeps[of g' M s t] k0 show ?thesis
        using keeps_trans by metis
    qed
  qed
qed

lemma find_or_duplicate_edge_nme:
  "num_non_manifold_edges (find_or_duplicate_edge M s t g) =
     (if halfedge_is_legel M (mesh g) (face_vertices g ! s) (face_vertices g ! t)
      then num_non_manifold_edges g else num_non_manifold_edges g + 1)"
proof (cases "halfedge_is_legel M (mesh g) (face_vertices g ! s) (face_vertices g ! t)")
  case True
  then show ?thesis by (simp add: find_or_duplicate_edge_def)
next
  case False
  let ?g0 = "g\<lparr>num_non_manifold_edges := num_non_manifold_edges g + 1\<rparr>"
  show ?thesis
  proof (cases "try_existing_copies M s t ?g0")
    case (Some g')
    with False have "find_or_duplicate_edge M s t g = g'"
      by (simp add: find_or_duplicate_edge_def)
    with try_existing_copies_keeps[OF Some] False show ?thesis by simp
  next
    case None
    show ?thesis
    proof (cases "copy_closed_disk M s t ?g0")
      case (Inl g')
      with False None have "find_or_duplicate_edge M s t g = g'"
        by (simp add: find_or_duplicate_edge_def)
      with copy_closed_disk_keeps[OF Inl, of g'] False show ?thesis by simp
    next
      case (Inr g')
      with False None have "find_or_duplicate_edge M s t g = copy_both M s t g'"
        by (simp add: find_or_duplicate_edge_def)
      with copy_closed_disk_keeps[OF Inr, of g'] copy_both_keeps[of g' M s t] False show ?thesis
        by simp
    qed
  qed
qed

lemma fold_find_or_duplicate_edge_keeps:
  "keeps g (fold (\<lambda>s. find_or_duplicate_edge M s (f s)) xs g)"
proof (induction xs arbitrary: g)
  case Nil
  show ?case by (simp add: keeps_refl)
next
  case (Cons x xs)
  show ?case
    using keeps_trans[OF find_or_duplicate_edge_keeps Cons.IH] by simp
qed


lemma fold_all_legal:
  "\<forall>s \<in> set xs. halfedge_is_legel M (mesh g) (face_vertices g ! s) (face_vertices g ! f s) \<Longrightarrow>
     fold (\<lambda>s. find_or_duplicate_edge M s (f s)) xs g = g"
  by (induction xs) (simp_all add: find_or_duplicate_edge_def)


text \<open>The loops over the copies answer the first legal element.\<close>

lemma find_first:
  "xs = pre @ v # post \<Longrightarrow> \<forall>u \<in> set pre. \<not> P u \<Longrightarrow> P v \<Longrightarrow> find P xs = Some v"
  by (induction pre arbitrary: xs) auto

lemma scan_copies_of_s_find: "scan_copies_of_s M m t cs = find (\<lambda>v. halfedge_is_legel M m v t) cs"
  by (induction cs) auto

lemma scan_copies_of_t_find: "scan_copies_of_t M m s ct = find (\<lambda>v. halfedge_is_legel M m s v) ct"
  by (induction ct) auto

lemma find_append_cases:
  "find P (xs @ ys) = (case find P xs of None \<Rightarrow> find P ys | Some x \<Rightarrow> Some x)"
  by (induction xs) auto

lemma find_map_Pair:
  "find (\<lambda>(x, y). Q x y) (map (Pair x) ys) = map_option (Pair x) (find (Q x) ys)"
  by (induction ys) auto

lemma scan_copies_of_both_find:
  "scan_copies_of_both M m cs ct = find (\<lambda>(x, y). halfedge_is_legel M m x y) (List.product cs ct)"
  by (induction cs)
    (auto simp: scan_copies_of_t_find find_append_cases find_map_Pair split: option.splits)

lemma product_Nil_right: "List.product xs [] = []"
  by (induction xs) auto

lemma find_None: "(\<forall>u \<in> set xs. \<not> P u) \<Longrightarrow> find P xs = None"
  by (simp add: find_None_iff)

text \<open>
  The search among the existing copies in terms of the first legal element; the keys at
  which edge resolution writes the copy relation; the forced copies.
\<close>

lemma try_existing_copies_find:
  "try_existing_copies M s t g =
     (case find (\<lambda>v. halfedge_is_legel M (mesh g) v (face_vertices g ! t))
             (case copies g (face_vertices g ! s) of None \<Rightarrow> [] | Some xs \<Rightarrow> xs) of
        Some v \<Rightarrow> Some (g\<lparr>face_vertices := (face_vertices g)[s := v]\<rparr>)
      | None \<Rightarrow>
     (case find (\<lambda>v. halfedge_is_legel M (mesh g) (face_vertices g ! s) v)
             (case copies g (face_vertices g ! t) of None \<Rightarrow> [] | Some xs \<Rightarrow> xs) of
        Some v \<Rightarrow> Some (g\<lparr>face_vertices := (face_vertices g)[t := v]\<rparr>)
      | None \<Rightarrow>
     (case find (\<lambda>(x, y). halfedge_is_legel M (mesh g) x y)
             (List.product
                (case copies g (face_vertices g ! s) of None \<Rightarrow> [] | Some xs \<Rightarrow> xs)
                (case copies g (face_vertices g ! t) of None \<Rightarrow> [] | Some xs \<Rightarrow> xs)) of
        Some (x, y) \<Rightarrow> Some (g\<lparr>face_vertices := (face_vertices g)[s := x, t := y]\<rparr>)
      | None \<Rightarrow> None)))"
proof -
  have scan_s: "(case copies g (face_vertices g ! s) of None \<Rightarrow> None
                 | Some xs \<Rightarrow> scan_copies_of_s M (mesh g) (face_vertices g ! t) xs) =
      find (\<lambda>v. halfedge_is_legel M (mesh g) v (face_vertices g ! t))
        (case copies g (face_vertices g ! s) of None \<Rightarrow> [] | Some xs \<Rightarrow> xs)"
    by (simp add: scan_copies_of_s_find split: option.split)
  have scan_t: "(case copies g (face_vertices g ! t) of None \<Rightarrow> None
                 | Some xs \<Rightarrow> scan_copies_of_t M (mesh g) (face_vertices g ! s) xs) =
      find (\<lambda>v. halfedge_is_legel M (mesh g) (face_vertices g ! s) v)
        (case copies g (face_vertices g ! t) of None \<Rightarrow> [] | Some xs \<Rightarrow> xs)"
    by (simp add: scan_copies_of_t_find split: option.split)
  have scan_b: "(case copies g (face_vertices g ! s) of None \<Rightarrow> None
                 | Some xs \<Rightarrow> (case copies g (face_vertices g ! t) of None \<Rightarrow> None
                     | Some ys \<Rightarrow> scan_copies_of_both M (mesh g) xs ys)) =
      find (\<lambda>(x, y). halfedge_is_legel M (mesh g) x y)
        (List.product
           (case copies g (face_vertices g ! s) of None \<Rightarrow> [] | Some xs \<Rightarrow> xs)
           (case copies g (face_vertices g ! t) of None \<Rightarrow> [] | Some xs \<Rightarrow> xs))"
    by (simp add: scan_copies_of_both_find product_Nil_right split: option.split)
  show ?thesis
    unfolding try_existing_copies_def Let_def scan_s scan_t scan_b
    by (rule refl)
qed


lemma only_at_refl: "only_at K c c"
  by (simp add: only_at_def)

lemma only_at_trans: "only_at K a b \<Longrightarrow> only_at K b c \<Longrightarrow> only_at K a c"
  by (simp add: only_at_def)

lemma only_at_mono: "only_at K a b \<Longrightarrow> K \<subseteq> L \<Longrightarrow> only_at L a b"
  by (auto simp: only_at_def)

lemma copy_closed_disk_only_at:
  assumes "copy_closed_disk M s t g = r" "r = Inl g' \<or> r = Inr g'"
  shows "only_at {input_face_vertices g ! s, input_face_vertices g ! t} (copies g) (copies g')"
  using assms
  by (auto simp: copy_closed_disk_def copy_closed_disk_t_def Let_def replace_by_copy_eq
      only_at_def split: if_splits)

lemma copy_both_only_at:
  "only_at {input_face_vertices g ! s, input_face_vertices g ! t} (copies g)
     (copies (copy_both M s t g))"
  by (simp add: copy_both_def Let_def replace_by_copy_eq only_at_def)

lemma find_or_duplicate_edge_only_at:
  "only_at {input_face_vertices g ! s, input_face_vertices g ! t} (copies g)
     (copies (find_or_duplicate_edge M s t g))"
proof (cases "halfedge_is_legel M (mesh g) (face_vertices g ! s) (face_vertices g ! t)")
  case True
  then show ?thesis by (simp add: find_or_duplicate_edge_def only_at_refl)
next
  case False
  let ?g0 = "g\<lparr>num_non_manifold_edges := num_non_manifold_edges g + 1\<rparr>"
  let ?K = "{input_face_vertices g ! s, input_face_vertices g ! t}"
  show ?thesis
  proof (cases "try_existing_copies M s t ?g0")
    case (Some g')
    with False have "find_or_duplicate_edge M s t g = g'"
      by (simp add: find_or_duplicate_edge_def)
    with try_existing_copies_Some[OF Some] show ?thesis
      by (auto simp: only_at_def)
  next
    case None
    show ?thesis
    proof (cases "copy_closed_disk M s t ?g0")
      case (Inl g')
      with False None have "find_or_duplicate_edge M s t g = g'"
        by (simp add: find_or_duplicate_edge_def)
      with copy_closed_disk_only_at[OF Inl, of g'] show ?thesis by simp
    next
      case (Inr g')
      with False None have r: "find_or_duplicate_edge M s t g = copy_both M s t g'"
        by (simp add: find_or_duplicate_edge_def)
      have "input_face_vertices g' = input_face_vertices g"
        using copy_closed_disk_keeps[OF Inr, of g'] by (simp add: keeps_def)
      with copy_both_only_at[of g' s t M] have "only_at ?K (copies g') (copies (copy_both M s t g'))"
        by simp
      moreover have "only_at ?K (copies g) (copies g')"
        using copy_closed_disk_only_at[OF Inr, of g'] by simp
      ultimately show ?thesis
        unfolding r by (rule only_at_trans[rotated])
    qed
  qed
qed

lemma keeps_appended:
  assumes "keeps g1 r" "copies g1 k = Some (xs @ [v])"
  shows "\<exists>ys. copies r k = Some (xs @ v # ys)"
proof -
  from assms obtain ys where "copies r k = Some ((xs @ [v]) @ ys)"
    unfolding keeps_def grows_def by blast
  then show ?thesis by simp
qed

lemma forced_copy_of_s:
  fixes M :: "('m, 'p, 'h) surface_mesh" and g0 :: "'m manifold_guard"
  assumes path: "\<not> sm_is_boundary M (mesh g0) (face_vertices g0 ! s) \<or>
           (sm_is_boundary M (mesh g0) (face_vertices g0 ! t) \<and>
            face_vertices g0 ! s = input_face_vertices g0 ! s)"
  shows "keeps (replace_by_copy M s g0)
           (case copy_closed_disk M s t g0 of Inl g' \<Rightarrow> g' | Inr g' \<Rightarrow> copy_both M s t g')"
proof (cases "sm_is_boundary M (mesh g0) (face_vertices g0 ! s)")
  case False
  let ?g1 = "replace_by_copy M s g0"
  show ?thesis
  proof (cases "halfedge_is_legel M (mesh ?g1) (face_vertices ?g1 ! s) (face_vertices ?g1 ! t)")
    case True
    with False show ?thesis by (simp add: copy_closed_disk_def Let_def keeps_refl)
  next
    case legal: False
    with False have ccd: "copy_closed_disk M s t g0 = copy_closed_disk_t M s t ?g1"
      by (simp add: copy_closed_disk_def Let_def)
    show ?thesis
    proof (cases "copy_closed_disk_t M s t ?g1")
      case (Inl g')
      with copy_closed_disk_t_keeps[OF Inl, of g'] show ?thesis by (simp add: ccd)
    next
      case (Inr g')
      with copy_closed_disk_t_keeps[OF Inr, of g'] copy_both_keeps[of g' M s t]
      show ?thesis using keeps_trans by (simp add: ccd) blast
    qed
  qed
next
  case True
  with path have bt: "sm_is_boundary M (mesh g0) (face_vertices g0 ! t)"
    and eq: "face_vertices g0 ! s = input_face_vertices g0 ! s" by simp_all
  from True bt have "copy_closed_disk M s t g0 = Inr g0"
    by (simp add: copy_closed_disk_def copy_closed_disk_t_def)
  then show ?thesis
    using eq by (simp add: copy_both_def Let_def keeps_refl replace_by_copy_keeps)
qed

lemma forced_copy_of_t:
  fixes M :: "('m, 'p, 'h) surface_mesh" and g0 :: "'m manifold_guard"
  assumes bs: "sm_is_boundary M (mesh g0) (face_vertices g0 ! s)"
    and path: "\<not> sm_is_boundary M (mesh g0) (face_vertices g0 ! t) \<or>
           (face_vertices g0 ! s \<noteq> input_face_vertices g0 ! s \<and>
            face_vertices g0 ! t = input_face_vertices g0 ! t)"
  shows "keeps (replace_by_copy M t g0)
           (case copy_closed_disk M s t g0 of Inl g' \<Rightarrow> g' | Inr g' \<Rightarrow> copy_both M s t g')"
proof (cases "sm_is_boundary M (mesh g0) (face_vertices g0 ! t)")
  case False
  let ?g1 = "replace_by_copy M t g0"
  show ?thesis
  proof (cases "halfedge_is_legel M (mesh ?g1) (face_vertices ?g1 ! s) (face_vertices ?g1 ! t)")
    case True
    with False bs show ?thesis
      by (simp add: copy_closed_disk_def copy_closed_disk_t_def Let_def keeps_refl)
  next
    case legal: False
    with False bs have "copy_closed_disk M s t g0 = Inr ?g1"
      by (simp add: copy_closed_disk_def copy_closed_disk_t_def Let_def)
    then show ?thesis
      using copy_both_keeps[of ?g1 M s t] by simp
  qed
next
  case True
  with path have ns: "face_vertices g0 ! s \<noteq> input_face_vertices g0 ! s"
    and eq: "face_vertices g0 ! t = input_face_vertices g0 ! t" by simp_all
  from True bs have "copy_closed_disk M s t g0 = Inr g0"
    by (simp add: copy_closed_disk_def copy_closed_disk_t_def)
  then show ?thesis
    using ns eq by (simp add: copy_both_def Let_def keeps_refl)
qed

text \<open>The copy relation through the other operations, and the two loops of finish.\<close>

lemma copy_vertex_eq:
  "copy_vertex M v g =
     (fst (sm_add_vertex M (sm_point M (mesh g) v) (mesh g)),
      g\<lparr>mesh := snd (sm_add_vertex M (sm_point M (mesh g) v) (mesh g)),
        copies := (copies g)(v \<mapsto> (case copies g v of None \<Rightarrow> [] | Some cs \<Rightarrow> cs) @
                   [fst (sm_add_vertex M (sm_point M (mesh g) v) (mesh g))])\<rparr>)"
  by (simp add: copy_vertex_def split: prod.split)

lemma fold_delete_if_isolated_copies:
  "copies (fold (delete_if_isolated M) xs g) = copies g"
  by (induction xs arbitrary: g) (simp_all add: delete_if_isolated_def)

lemma fold_count_if_non_manifold_eq:
  "fold (count_if_non_manifold M) xs g =
     g\<lparr>num_non_manifold_vertices :=
         num_non_manifold_vertices g + int (length (filter (\<lambda>v. \<not> sm_is_manifold M (mesh g) v) xs))\<rparr>"
  by (induction xs arbitrary: g) (simp_all add: count_if_non_manifold_def)

lemma finish_copies: "copies (fst (finish M g)) = copies g"
  by (simp add: finish_def Let_def fold_count_if_non_manifold_eq fold_delete_if_isolated_copies)

lemma add_face_grows: "grows (copies g) (copies (snd (add_face M vs g)))"
proof -
  let ?g1 = "g\<lparr>input_face_vertices := vs, face_vertices := vs\<rparr>"
  let ?g2 = "fold (\<lambda>s. find_or_duplicate_edge M s ((s + 1) mod length vs)) [0..<length vs] ?g1"
  have "keeps ?g1 ?g2" by (rule fold_find_or_duplicate_edge_keeps)
  then have "grows (copies g) (copies ?g2)" by (simp add: keeps_def)
  then show ?thesis
    by (simp add: add_face_def Let_def grows_refl split: prod.split)
qed

lemma fold_delete_if_isolated_eq:
  assumes contract: "\<forall>m v w. sm_is_isolated M m v \<and> w \<noteq> v \<longrightarrow>
            sm_is_isolated M (sm_delete_vertex M v m) w = sm_is_isolated M m w"
    and "distinct xs"
  shows "fold (delete_if_isolated M) xs g =
           g\<lparr>mesh := fold (sm_delete_vertex M) (filter (sm_is_isolated M (mesh g)) xs) (mesh g),
             num_isolated_vertices :=
               num_isolated_vertices g + int (length (filter (sm_is_isolated M (mesh g)) xs))\<rparr>"
  using assms(2)
proof (induction xs arbitrary: g)
  case Nil
  show ?case by simp
next
  case (Cons x xs)
  then have notin: "x \<notin> set xs" and dist: "distinct xs" by simp_all
  show ?case
  proof (cases "sm_is_isolated M (mesh g) x")
    case True
    let ?g' = "g\<lparr>mesh := sm_delete_vertex M x (mesh g),
                  num_isolated_vertices := num_isolated_vertices g + 1\<rparr>"
    have same: "filter (sm_is_isolated M (sm_delete_vertex M x (mesh g))) xs =
                filter (sm_is_isolated M (mesh g)) xs"
    proof (intro filter_cong refl)
      fix w
      assume "w \<in> set xs"
      with notin have "w \<noteq> x" by auto
      with contract True
      show "sm_is_isolated M (sm_delete_vertex M x (mesh g)) w = sm_is_isolated M (mesh g) w"
        by blast
    qed
    have "fold (delete_if_isolated M) (x # xs) g = fold (delete_if_isolated M) xs ?g'"
      using True by (simp add: delete_if_isolated_def)
    also have "\<dots> = ?g'\<lparr>mesh := fold (sm_delete_vertex M)
                          (filter (sm_is_isolated M (mesh ?g')) xs) (mesh ?g'),
             num_isolated_vertices :=
               num_isolated_vertices ?g' + int (length (filter (sm_is_isolated M (mesh ?g')) xs))\<rparr>"
      by (rule Cons.IH[OF dist])
    finally show ?thesis
      using True by (simp add: same)
  next
    case False
    then have "fold (delete_if_isolated M) (x # xs) g = fold (delete_if_isolated M) xs g"
      by (simp add: delete_if_isolated_def)
    with Cons.IH[OF dist, of g] False show ?thesis by simp
  qed
qed

lemma report_counter_snd: "snd (report_counter n txt r) = (0 < n \<or> snd r)"
  by (simp add: report_counter_def)

text \<open>
  The mesh of the section above keeps the position it is given for a new vertex, and
  deleting an isolated vertex leaves the other vertices as isolated as they were.
\<close>

lemma hm_add_vertex_point:
  "sm_point hm_ops (snd (sm_add_vertex hm_ops p m)) (fst (sm_add_vertex hm_ops p m)) = p"
  by (simp add: hm_ops_def hm_point_def hm_add_vertex_def)


lemma hm_delete_isolated:
  "\<forall>m v w. sm_is_isolated hm_ops m v \<and> w \<noteq> v \<longrightarrow>
     sm_is_isolated hm_ops (sm_delete_vertex hm_ops v m) w = sm_is_isolated hm_ops m w"
proof -
  have "filter (\<lambda>f. v \<notin> set f) fs = fs" if "v \<notin> set (concat fs)" for v :: nat and fs
    using that by (induction fs) auto
  then show ?thesis
    by (simp add: hm_ops_def hm_is_isolated_def hm_delete_vertex_def)
qed

lemma hm_vertices_distinct: "distinct (sm_vertices hm_ops m)"
  by (simp add: hm_ops_def hm_vertices_def)

text \<open>The sessions above, evaluated.\<close>

lemma legal_edges_guard3:
  "halfedge_is_legel hm_ops (mesh guard3) 0 1 \<and>
   halfedge_is_legel hm_ops (mesh guard3) 1 2 \<and>
   halfedge_is_legel hm_ops (mesh guard3) 2 0"
  by code_simp

lemma guard_tri_facts:
  "face_vertices guard_tri = [0, 1, 2]"
  "input_face_vertices guard_tri = [0, 1, 2]"
  "copies guard_tri 0 = None"
  "copies guard_tri (Suc 0) = None"
  "\<not> halfedge_is_legel hm_ops (mesh guard_tri) 0 (Suc 0)"
  "sm_is_boundary hm_ops (mesh guard_tri) 0"
  "sm_is_boundary hm_ops (mesh guard_tri) (Suc 0)"
  by code_simp+

lemma guard_fan_facts:
  "face_vertices guard_fan = [0, 1, 5]"
  "copies guard_fan 0 = Some [3]"
  "\<not> halfedge_is_legel hm_ops (mesh guard_fan) 0 (Suc 0)"
  "halfedge_is_legel hm_ops (mesh guard_fan) 3 (Suc 0)"
  by code_simp+

lemma guard_twice_facts:
  "copies guard_twice (Suc 0) = Some [4]"
  "copies (snd (add_face hm_ops [0, Suc 0, 2] guard_twice)) (Suc 0) = Some [4, 5]"
  "fst (copy_vertex hm_ops (Suc 0) guard_twice) = 5"
  "sm_point hm_ops (mesh guard_twice) (Suc 0) = (1, 0, 0)"
  by code_simp+

lemma guard_iso_facts:
  "filter (sm_is_isolated hm_ops (mesh guard_iso)) (sm_vertices hm_ops (mesh guard_iso)) = [3]"
  "num_faces_less_three_vertices guard_iso = 0"
  "num_faces_duplicated_vertices guard_iso = 0"
  "num_non_manifold_edges guard_iso = 0"
  "num_non_manifold_vertices guard_iso = 0"
  "num_isolated_vertices guard_iso = 0"
  "sm_vertices hm_ops (mesh guard_iso) = [0, 1, 2, 3]"
  "sm_vertices hm_ops (mesh (fst (finish hm_ops guard_iso))) = [0, 1, 2]"
  "snd (finish hm_ops guard_iso) =
     Some (''mesh has topological issues:'' @ [CHR 0x0A, CHR 0x09] @
           ''1 isolated vertices (removed)'')"
  by code_simp+

lemma guard_edge0_facts:
  "face_vertices guard_edge0 = [2, 3, 0]"
  "input_face_vertices guard_edge0 = [2, 3, 0]"
  "copies guard_edge0 2 = Some [5, 6]"
  "\<not> halfedge_is_legel hm_ops (mesh guard_edge0) 2 3"
  "\<not> halfedge_is_legel hm_ops (mesh guard_edge0) 5 3"
  "halfedge_is_legel hm_ops (mesh guard_edge0) 6 3"
  by code_simp+

lemma guard_wrap_facts:
  "face_vertices guard_wrap = [6, 3, 0]"
  "input_face_vertices guard_wrap = [2, 3, 0]"
  "copies guard_wrap 0 = None"
  "copies guard_wrap 6 = None"
  "copies guard_wrap 2 = Some [5, 6]"
  "\<not> halfedge_is_legel hm_ops (mesh guard_wrap) 0 6"
  "halfedge_is_legel hm_ops (mesh guard_wrap) 0 5"
  "sm_is_boundary hm_ops (mesh guard_wrap) 0"
  "sm_is_boundary hm_ops (mesh guard_wrap) 6"
  "fst (sm_add_vertex hm_ops (sm_point hm_ops (mesh guard_wrap) 0) (mesh guard_wrap)) = 8"
  "copies (find_or_duplicate_edge hm_ops 2 0 guard_wrap) 0 = Some [8]"
  "face_vertices (find_or_duplicate_edge hm_ops 2 0 guard_wrap) = [6, 3, 8]"
  "face_vertices (snd (add_face hm_ops [2, 3, 0] guard_three_faces)) = [6, 3, 8]"
  by code_simp+

section \<open>add\_vertex (C10)\<close>

text \<open>
  C10. \<^verbatim>\<open>add_vertex\<close> returns the handle the mesh's vertex insertion returns, and the
  guard after the call is the guard before it with only the mesh replaced by the mesh
  after that insertion: the five counters, the copy relation and both working buffers
  are those of before.
\<close>

theorem add_vertex_frame:
  "fst (add_vertex M p g) = fst (sm_add_vertex M p (mesh g)) \<and>
   snd (add_vertex M p g) = g\<lparr>mesh := snd (sm_add_vertex M p (mesh g))\<rparr> \<and>
   num_faces_less_three_vertices (snd (add_vertex M p g)) = num_faces_less_three_vertices g \<and>
   num_faces_duplicated_vertices (snd (add_vertex M p g)) = num_faces_duplicated_vertices g \<and>
   num_non_manifold_edges (snd (add_vertex M p g)) = num_non_manifold_edges g \<and>
   num_non_manifold_vertices (snd (add_vertex M p g)) = num_non_manifold_vertices g \<and>
   num_isolated_vertices (snd (add_vertex M p g)) = num_isolated_vertices g \<and>
   copies (snd (add_vertex M p g)) = copies g \<and>
   input_face_vertices (snd (add_vertex M p g)) = input_face_vertices g \<and>
   face_vertices (snd (add_vertex M p g)) = face_vertices g"
  by (simp add: add_vertex_def split: prod.split)

section \<open>Rejected faces (C5)\<close>

text \<open>
  C5. A face of fewer than 3 indices is answered with the invalid handle, and the guard
  after the call is the guard before it with the too-few-vertices counter one higher. A
  face of at least 3 indices with a repeated index is answered with the invalid handle,
  and the guard after the call is the guard before it with the duplicated-vertices
  counter one higher. In both cases the mesh, the buffers, the copy relation and the
  other four counters are the fields of the guard that the update leaves alone.
\<close>

theorem add_face_rejects:
  "(length vs < 3 \<longrightarrow>
      add_face M vs g =
        (None, g\<lparr>num_faces_less_three_vertices := num_faces_less_three_vertices g + 1\<rparr>)) \<and>
   (3 \<le> length vs \<and> \<not> distinct vs \<longrightarrow>
      add_face M vs g =
        (None, g\<lparr>num_faces_duplicated_vertices := num_faces_duplicated_vertices g + 1\<rparr>))"
  by (simp add: add_face_def has_duplicated_vertices_iff)

theorem add_face_rejects_witness:
  "add_face hm_ops [0, 1] guard3 =
     (None, guard3\<lparr>num_faces_less_three_vertices := num_faces_less_three_vertices guard3 + 1\<rparr>) \<and>
   add_face hm_ops [0, 1, 0] guard3 =
     (None, guard3\<lparr>num_faces_duplicated_vertices := num_faces_duplicated_vertices guard3 + 1\<rparr>)"
  using add_face_rejects [of "[0, 1]" hm_ops guard3]
    add_face_rejects [of "[0, 1, 0]" hm_ops guard3]
  by simp

section \<open>The legality predicate (C2)\<close>

text \<open>
  C2. \<^verbatim>\<open>halfedge_is_legel(s, t)\<close> is true exactly when the half-edge from \<open>s\<close> to \<open>t\<close>
  does not exist or exists as a boundary half-edge, and both \<open>s\<close> and \<open>t\<close> are boundary
  vertices. When it is true of the entries \<open>i\<close> and \<open>j\<close> of the working list, edge
  resolution returns the guard as it was: no counter, no entry of the working list and
  no entry of the copy relation changes.
\<close>

theorem halfedge_is_legel_iff:
  "(halfedge_is_legel M m s t \<longleftrightarrow>
      (sm_find_halfedge M m s t = None \<or>
       (\<exists>h. sm_find_halfedge M m s t = Some h \<and> sm_is_boundary_h M m h)) \<and>
      sm_is_boundary M m s \<and> sm_is_boundary M m t) \<and>
   (halfedge_is_legel M (mesh g) (face_vertices g ! i) (face_vertices g ! j) \<longrightarrow>
      find_or_duplicate_edge M i j g = g)"
  by (auto simp: halfedge_is_legel_def find_or_duplicate_edge_def split: option.splits)

theorem halfedge_is_legel_iff_witness:
  "halfedge_is_legel hm_ops (mesh guard3) 0 1 \<and>
   find_or_duplicate_edge hm_ops 0 1 (guard3\<lparr>face_vertices := [0, 1, 2]\<rparr>) =
     guard3\<lparr>face_vertices := [0, 1, 2]\<rparr>"
  using halfedge_is_legel_iff [of hm_ops "mesh guard3" 0 1 "guard3\<lparr>face_vertices := [0, 1, 2]\<rparr>" 0 1]
    legal_edges_guard3
  by simp

section \<open>Faces whose edges are all legal (C6)\<close>

text \<open>
  C6. For a face of at least 3 distinct indices all of whose consecutive edges, the edge
  from the last vertex back to the first included, are legal in the current mesh,
  \<^verbatim>\<open>add_face\<close> hands the caller's list itself to the mesh's face insertion and returns
  its handle; the guard after the call differs from the guard before it only in the two
  buffers (both hold the caller's list) and the mesh (as the insertion left it). No
  vertex is copied: the copy relation and the non-manifold-edge counter are unchanged.
\<close>

theorem add_face_all_legal:
  assumes "3 \<le> length vs" and "distinct vs"
    and "\<forall>i < length vs. halfedge_is_legel M (mesh g) (vs ! i) (vs ! ((i + 1) mod length vs))"
  shows "add_face M vs g =
           (fst (sm_add_face M vs (mesh g)),
            g\<lparr>input_face_vertices := vs, face_vertices := vs,
              mesh := snd (sm_add_face M vs (mesh g))\<rparr>) \<and>
         copies (snd (add_face M vs g)) = copies g \<and>
         num_non_manifold_edges (snd (add_face M vs g)) = num_non_manifold_edges g"
proof -
  let ?g1 = "g\<lparr>input_face_vertices := vs, face_vertices := vs\<rparr>"
  have "fold (\<lambda>s. find_or_duplicate_edge M s ((s + 1) mod length vs)) [0..<length vs] ?g1 = ?g1"
    using assms(3) by (intro fold_all_legal) simp
  with assms(1,2) show ?thesis
    by (simp add: add_face_def has_duplicated_vertices_iff split: prod.split)
qed

theorem add_face_all_legal_witness:
  "add_face hm_ops [0, 1, 2] guard3 =
     (Some 0,
      guard3\<lparr>input_face_vertices := [0, 1, 2], face_vertices := [0, 1, 2],
             mesh := snd (sm_add_face hm_ops [0, 1, 2] (mesh guard3))\<rparr>)"
proof -
  have len: "3 \<le> length [0, 1, 2 :: nat]" and dist: "distinct [0, 1, 2 :: nat]"
    by simp_all
  have legal: "\<forall>i < length [0, 1, 2 :: nat].
          halfedge_is_legel hm_ops (mesh guard3) ([0, 1, 2] ! i)
            ([0, 1, 2] ! ((i + 1) mod length [0, 1, 2 :: nat]))"
  proof (intro allI impI)
    fix i :: nat
    assume "i < length [0, 1, 2 :: nat]"
    then consider "i = 0" | "i = 1" | "i = 2"
      by force
    then show "halfedge_is_legel hm_ops (mesh guard3) ([0, 1, 2] ! i)
            ([0, 1, 2] ! ((i + 1) mod length [0, 1, 2 :: nat]))"
      using legal_edges_guard3 by cases simp_all
  qed
  have face: "fst (sm_add_face hm_ops [0, 1, 2] (mesh guard3)) = Some 0"
    by code_simp
  show ?thesis
    using add_face_all_legal [OF len dist legal] face by simp
qed

section \<open>The same face twice (C1)\<close>




section \<open>The order of edge resolution (C3)\<close>

text \<open>
  C3. Let \<open>a\<close> and \<open>b\<close> be the entries \<open>s\<close> and \<open>t\<close> of the working list, \<open>cs\<close> and
  \<open>ct\<close> the vectors of copies registered under \<open>a\<close> and \<open>b\<close> (empty when there is no
  entry), and let the edge from \<open>a\<close> to \<open>b\<close> be illegal. Then the non-manifold-edge counter
  is one higher after resolution, and the result is fixed by the first of these that
  applies:
  \<^enum> the first \<open>v\<close> of \<open>cs\<close> with \<open>v\<close>, \<open>b\<close> legal replaces entry \<open>s\<close>;
  \<^enum> no such \<open>v\<close>: the first \<open>v\<close> of \<open>ct\<close> with \<open>a\<close>, \<open>v\<close> legal replaces entry \<open>t\<close>;
  \<^enum> none either: the first legal pair of the product of \<open>cs\<close> and \<open>ct\<close> (which is empty
    unless both have a copy), in the order of the nested loops, replaces both entries;
  \<^enum> none either: if \<open>a\<close> is not a boundary vertex, entry \<open>s\<close> is replaced by a new copy of
    the input vertex at \<open>s\<close>, and resolution ends there if the edge is legal now;
    otherwise, if the entry \<open>t\<close> is not a boundary vertex, entry \<open>t\<close> is replaced by a new
    copy of the input vertex at \<open>t\<close>, and resolution ends there if the edge is legal now;
    otherwise lines 222-226 run on the guard so reached.
\<close>

theorem find_or_duplicate_edge_order:
  fixes M :: "('m, 'p, 'h) surface_mesh" and g :: "'m manifold_guard" and s t :: nat
  defines "a \<equiv> face_vertices g ! s" and "b \<equiv> face_vertices g ! t"
    and "legal \<equiv> halfedge_is_legel M (mesh g)"
    and "g0 \<equiv> g\<lparr>num_non_manifold_edges := num_non_manifold_edges g + 1\<rparr>"
    and "r \<equiv> find_or_duplicate_edge M s t g"
  defines "cs \<equiv> (case copies g a of None \<Rightarrow> [] | Some xs \<Rightarrow> xs)"
    and "ct \<equiv> (case copies g b of None \<Rightarrow> [] | Some xs \<Rightarrow> xs)"
  defines "g1 \<equiv> (if \<not> sm_is_boundary M (mesh g) a then replace_by_copy M s g0 else g0)"
  defines "g2 \<equiv> (if \<not> sm_is_boundary M (mesh g1) (face_vertices g1 ! t)
                   then replace_by_copy M t g1 else g1)"
  assumes illegal: "\<not> legal a b"
  shows "num_non_manifold_edges r = num_non_manifold_edges g + 1 \<and>
    (cs = pre1 @ v1 # post1 \<and> (\<forall>u \<in> set pre1. \<not> legal u b) \<and> legal v1 b \<longrightarrow>
       r = g0\<lparr>face_vertices := (face_vertices g)[s := v1]\<rparr>) \<and>
    ((\<forall>u \<in> set cs. \<not> legal u b) \<and>
     ct = pre2 @ v2 # post2 \<and> (\<forall>u \<in> set pre2. \<not> legal a u) \<and> legal a v2 \<longrightarrow>
       r = g0\<lparr>face_vertices := (face_vertices g)[t := v2]\<rparr>) \<and>
    ((\<forall>u \<in> set cs. \<not> legal u b) \<and> (\<forall>u \<in> set ct. \<not> legal a u) \<and>
     List.product cs ct = pre3 @ (vs, vt) # post3 \<and>
     (\<forall>(x, y) \<in> set pre3. \<not> legal x y) \<and> legal vs vt \<longrightarrow>
       r = g0\<lparr>face_vertices := (face_vertices g)[s := vs, t := vt]\<rparr>) \<and>
    ((\<forall>u \<in> set cs. \<not> legal u b) \<and> (\<forall>u \<in> set ct. \<not> legal a u) \<and>
     (\<forall>(x, y) \<in> set (List.product cs ct). \<not> legal x y) \<longrightarrow>
       (if \<not> sm_is_boundary M (mesh g) a \<and>
           halfedge_is_legel M (mesh g1) (face_vertices g1 ! s) (face_vertices g1 ! t)
        then r = g1
        else if \<not> sm_is_boundary M (mesh g1) (face_vertices g1 ! t) \<and>
           halfedge_is_legel M (mesh g2) (face_vertices g2 ! s) (face_vertices g2 ! t)
        then r = g2
        else r = copy_both M s t g2))"
proof -
  have r: "r = (case try_existing_copies M s t g0 of
                  Some g' \<Rightarrow> g'
                | None \<Rightarrow> (case copy_closed_disk M s t g0 of
                             Inl g' \<Rightarrow> g' | Inr g' \<Rightarrow> copy_both M s t g'))"
    using illegal
    unfolding r_def find_or_duplicate_edge_def legal_def a_def b_def g0_def Let_def
    by simp
  have scan_s: "(case copies g0 (face_vertices g ! s) of None \<Rightarrow> None
                 | Some xs \<Rightarrow> scan_copies_of_s M (mesh g0) (face_vertices g ! t) xs) =
                find (\<lambda>v. legal v b) cs"
    by (simp add: g0_def cs_def a_def b_def legal_def scan_copies_of_s_find split: option.split)
  have scan_t: "(case copies g0 (face_vertices g ! t) of None \<Rightarrow> None
                 | Some xs \<Rightarrow> scan_copies_of_t M (mesh g0) (face_vertices g ! s) xs) =
                find (\<lambda>v. legal a v) ct"
    by (simp add: g0_def ct_def a_def b_def legal_def scan_copies_of_t_find split: option.split)
  have scan_b: "(case copies g0 (face_vertices g ! s) of None \<Rightarrow> None
                 | Some xs \<Rightarrow> (case copies g0 (face_vertices g ! t) of None \<Rightarrow> None
                     | Some ys \<Rightarrow> scan_copies_of_both M (mesh g0) xs ys)) =
                find (\<lambda>(x, y). legal x y) (List.product cs ct)"
    by (simp add: g0_def cs_def ct_def a_def b_def legal_def scan_copies_of_both_find
        product_Nil_right split: option.split)
  have fv0: "face_vertices g0 = face_vertices g"
    by (simp add: g0_def)
  have try_eq: "try_existing_copies M s t g0 =
      (case find (\<lambda>v. legal v b) cs of
         Some v \<Rightarrow> Some (g0\<lparr>face_vertices := (face_vertices g)[s := v]\<rparr>)
       | None \<Rightarrow>
      (case find (\<lambda>v. legal a v) ct of
         Some v \<Rightarrow> Some (g0\<lparr>face_vertices := (face_vertices g)[t := v]\<rparr>)
       | None \<Rightarrow>
      (case find (\<lambda>(x, y). legal x y) (List.product cs ct) of
         Some (x, y) \<Rightarrow> Some (g0\<lparr>face_vertices := (face_vertices g)[s := x, t := y]\<rparr>)
       | None \<Rightarrow> None)))"
    unfolding try_existing_copies_def Let_def scan_s scan_t scan_b fv0
    by (rule refl)
  have nme: "num_non_manifold_edges r = num_non_manifold_edges g + 1"
    using illegal
    by (simp add: r_def find_or_duplicate_edge_nme legal_def a_def b_def)
  have b1: "r = g0\<lparr>face_vertices := (face_vertices g)[s := v1]\<rparr>"
    if "cs = pre1 @ v1 # post1" "\<forall>u \<in> set pre1. \<not> legal u b" "legal v1 b"
    using find_first[OF that(1), of "\<lambda>v. legal v b"] that(2,3)
    by (simp add: r try_eq)
  have b2: "r = g0\<lparr>face_vertices := (face_vertices g)[t := v2]\<rparr>"
    if "\<forall>u \<in> set cs. \<not> legal u b"
      "ct = pre2 @ v2 # post2" "\<forall>u \<in> set pre2. \<not> legal a u" "legal a v2"
    using find_first[OF that(2), of "\<lambda>v. legal a v"] that(3,4) find_None[OF that(1)]
    by (simp add: r try_eq)
  have b3: "r = g0\<lparr>face_vertices := (face_vertices g)[s := vs, t := vt]\<rparr>"
    if "\<forall>u \<in> set cs. \<not> legal u b" "\<forall>u \<in> set ct. \<not> legal a u"
      "List.product cs ct = pre3 @ (vs, vt) # post3"
      "\<forall>(x, y) \<in> set pre3. \<not> legal x y" "legal vs vt"
  proof -
    have "find (\<lambda>(x, y). legal x y) (List.product cs ct) = Some (vs, vt)"
      using that(4,5) by (intro find_first[OF that(3)]) auto
    with find_None[OF that(1)] find_None[OF that(2)] show ?thesis
      by (simp add: r try_eq)
  qed
  have b4: "(if \<not> sm_is_boundary M (mesh g) a \<and>
           halfedge_is_legel M (mesh g1) (face_vertices g1 ! s) (face_vertices g1 ! t)
        then r = g1
        else if \<not> sm_is_boundary M (mesh g1) (face_vertices g1 ! t) \<and>
           halfedge_is_legel M (mesh g2) (face_vertices g2 ! s) (face_vertices g2 ! t)
        then r = g2
        else r = copy_both M s t g2)"
    if "\<forall>u \<in> set cs. \<not> legal u b" "\<forall>u \<in> set ct. \<not> legal a u"
      "\<forall>(x, y) \<in> set (List.product cs ct). \<not> legal x y"
  proof -
    have "find (\<lambda>(x, y). legal x y) (List.product cs ct) = None"
      using that(3) by (intro find_None) auto
    with find_None[OF that(1)] find_None[OF that(2)]
    have "try_existing_copies M s t g0 = None"
      by (simp add: try_eq)
    then have r': "r = (case copy_closed_disk M s t g0 of
                             Inl g' \<Rightarrow> g' | Inr g' \<Rightarrow> copy_both M s t g')"
      by (simp add: r)
    have ba: "sm_is_boundary M (mesh g0) (face_vertices g0 ! s) = sm_is_boundary M (mesh g) a"
      by (simp add: g0_def a_def)
    show ?thesis
      unfolding r' copy_closed_disk_def copy_closed_disk_t_def ba g2_def g1_def
      by (simp add: Let_def)
  qed
  from nme b1 b2 b3 b4 show ?thesis by blast
qed

theorem find_or_duplicate_edge_order_witness:
  "find_or_duplicate_edge hm_ops 0 1 guard_fan =
     guard_fan\<lparr>num_non_manifold_edges := num_non_manifold_edges guard_fan + 1,
               face_vertices := [3, 1, 5]\<rparr> \<and>
   find_or_duplicate_edge hm_ops 0 1 guard_tri =
     copy_both hm_ops 0 1
       (guard_tri\<lparr>num_non_manifold_edges := num_non_manifold_edges guard_tri + 1\<rparr>)"
proof -
  have "find_or_duplicate_edge hm_ops 0 1 guard_fan =
     guard_fan\<lparr>num_non_manifold_edges := num_non_manifold_edges guard_fan + 1,
               face_vertices := [3, 1, 5]\<rparr>"
    using find_or_duplicate_edge_order [where M = hm_ops and g = guard_fan and s = 0 and t = 1
        and ?pre1.0 = "[]" and ?v1.0 = 3 and ?post1.0 = "[]"]
    by (simp add: guard_fan_facts)
  moreover have "find_or_duplicate_edge hm_ops 0 1 guard_tri =
     copy_both hm_ops 0 1
       (guard_tri\<lparr>num_non_manifold_edges := num_non_manifold_edges guard_tri + 1\<rparr>)"
    using find_or_duplicate_edge_order [where M = hm_ops and g = guard_tri and s = 0 and t = 1]
    by (simp add: guard_tri_facts)
  ultimately show ?thesis by simp
qed

section \<open>The last resort (C4)\<close>

text \<open>
  C4. When resolution of an illegal edge finds no legal pair among the existing copies and
  the copying of closed disks (lines 211-220) falls through with the guard \<open>g'\<close>, the
  result is what lines 222-226 make of \<open>g'\<close>, for two different positions \<open>s\<close> and \<open>t\<close>:
  if both entries of the working list still equal the input entries, both are replaced
  by new copies, the second with no test of legality in between (the mesh gets two new
  vertices); if only one entry still equals its input entry, only that one is replaced.
\<close>

theorem copy_both_unconditional:
  fixes M :: "('m, 'p, 'h) surface_mesh" and g g' :: "'m manifold_guard" and s t :: nat
  assumes "\<not> halfedge_is_legel M (mesh g) (face_vertices g ! s) (face_vertices g ! t)"
    and "try_existing_copies M s t
           (g\<lparr>num_non_manifold_edges := num_non_manifold_edges g + 1\<rparr>) = None"
    and "copy_closed_disk M s t
           (g\<lparr>num_non_manifold_edges := num_non_manifold_edges g + 1\<rparr>) = Inr g'"
    and "s \<noteq> t"
  shows "find_or_duplicate_edge M s t g = copy_both M s t g' \<and>
    (face_vertices g' ! s = input_face_vertices g' ! s \<and>
     face_vertices g' ! t = input_face_vertices g' ! t \<longrightarrow>
       copy_both M s t g' = replace_by_copy M t (replace_by_copy M s g') \<and>
       (let (v1, m1) = sm_add_vertex M (sm_point M (mesh g') (input_face_vertices g' ! s)) (mesh g');
            (v2, m2) = sm_add_vertex M (sm_point M m1 (input_face_vertices g' ! t)) m1
        in mesh (copy_both M s t g') = m2 \<and>
           face_vertices (copy_both M s t g') = (face_vertices g')[s := v1, t := v2])) \<and>
    (face_vertices g' ! s = input_face_vertices g' ! s \<and>
     face_vertices g' ! t \<noteq> input_face_vertices g' ! t \<longrightarrow>
       copy_both M s t g' = replace_by_copy M s g') \<and>
    (face_vertices g' ! s \<noteq> input_face_vertices g' ! s \<and>
     face_vertices g' ! t = input_face_vertices g' ! t \<longrightarrow>
       copy_both M s t g' = replace_by_copy M t g')"
proof -
  have r: "find_or_duplicate_edge M s t g = copy_both M s t g'"
    using assms(1-3) unfolding find_or_duplicate_edge_def Let_def by simp
  have fv: "face_vertices (replace_by_copy M s g') ! t = face_vertices g' ! t"
    using assms(4) by (simp add: replace_by_copy_eq)
  have inp: "input_face_vertices (replace_by_copy M s g') = input_face_vertices g'"
    by (simp add: replace_by_copy_eq)
  have both: "copy_both M s t g' = replace_by_copy M t (replace_by_copy M s g')"
    if "face_vertices g' ! s = input_face_vertices g' ! s"
      "face_vertices g' ! t = input_face_vertices g' ! t"
    using that by (simp add: copy_both_def Let_def fv inp)
  have both': "(let (v1, m1) = sm_add_vertex M (sm_point M (mesh g') (input_face_vertices g' ! s)) (mesh g');
            (v2, m2) = sm_add_vertex M (sm_point M m1 (input_face_vertices g' ! t)) m1
        in mesh (replace_by_copy M t (replace_by_copy M s g')) = m2 \<and>
           face_vertices (replace_by_copy M t (replace_by_copy M s g')) = (face_vertices g')[s := v1, t := v2])"
    by (simp add: replace_by_copy_eq split: prod.split)
  have only_s: "copy_both M s t g' = replace_by_copy M s g'"
    if "face_vertices g' ! s = input_face_vertices g' ! s"
      "face_vertices g' ! t \<noteq> input_face_vertices g' ! t"
    using that by (simp add: copy_both_def Let_def fv inp)
  have only_t: "copy_both M s t g' = replace_by_copy M t g'"
    if "face_vertices g' ! s \<noteq> input_face_vertices g' ! s"
      "face_vertices g' ! t = input_face_vertices g' ! t"
    using that by (simp add: copy_both_def Let_def)
  from r both both' only_s only_t show ?thesis by simp
qed

theorem copy_both_unconditional_witness:
  "find_or_duplicate_edge hm_ops 0 1 guard_tri =
     replace_by_copy hm_ops 1 (replace_by_copy hm_ops 0
       (guard_tri\<lparr>num_non_manifold_edges := num_non_manifold_edges guard_tri + 1\<rparr>)) \<and>
   halfedge_is_legel hm_ops (mesh (replace_by_copy hm_ops 0 guard_tri))
     (face_vertices (replace_by_copy hm_ops 0 guard_tri) ! 0)
     (face_vertices (replace_by_copy hm_ops 0 guard_tri) ! 1) \<and>
   face_vertices (find_or_duplicate_edge hm_ops 0 1 guard_tri) = [3, 4, 2]"
proof -
  let ?g0 = "guard_tri\<lparr>num_non_manifold_edges := num_non_manifold_edges guard_tri + 1\<rparr>"
  have a: "\<not> halfedge_is_legel hm_ops (mesh guard_tri) (face_vertices guard_tri ! 0)
             (face_vertices guard_tri ! 1)"
    by (simp add: guard_tri_facts)
  have b: "try_existing_copies hm_ops 0 1 ?g0 = None"
    by (simp add: try_existing_copies_def guard_tri_facts)
  have c: "copy_closed_disk hm_ops 0 1 ?g0 = Inr ?g0"
    by (simp add: copy_closed_disk_def copy_closed_disk_t_def guard_tri_facts)
  have d: "(0::nat) \<noteq> 1" by simp
  have e: "halfedge_is_legel hm_ops (mesh (replace_by_copy hm_ops 0 guard_tri))
     (face_vertices (replace_by_copy hm_ops 0 guard_tri) ! 0)
     (face_vertices (replace_by_copy hm_ops 0 guard_tri) ! 1)"
    by code_simp
  have f: "face_vertices (find_or_duplicate_edge hm_ops 0 1 guard_tri) = [3, 4, 2]"
    by code_simp
  from copy_both_unconditional [OF a b c d] e f show ?thesis
    by (simp add: guard_tri_facts)
qed

section \<open>The copy relation (C7)\<close>

text \<open>
  C7. \<^verbatim>\<open>copy_vertex(v)\<close> inserts one vertex into the mesh, at the position the mesh's
  table holds for \<open>v\<close>, and appends the new handle to the vector of \<open>v\<close> in the copy
  relation (creating it when \<open>v\<close> had none); on a mesh that keeps the position it is
  given for a new vertex, the copy's position is that of \<open>v\<close>. \<^verbatim>\<open>add_face\<close> only
  appends to the vectors of the copy relation: no entry is removed or changed.
  \<^verbatim>\<open>add_vertex\<close> and \<^verbatim>\<open>finish\<close> leave the relation as it is, and \<^verbatim>\<open>begin\<close> empties it.
\<close>

theorem copies_only_grow:
  "fst (copy_vertex M v g) = fst (sm_add_vertex M (sm_point M (mesh g) v) (mesh g)) \<and>
   copies (snd (copy_vertex M v g)) =
     (copies g)(v \<mapsto> (case copies g v of None \<Rightarrow> [] | Some cs \<Rightarrow> cs) @ [fst (copy_vertex M v g)]) \<and>
   ((\<forall>p m. sm_point M (snd (sm_add_vertex M p m)) (fst (sm_add_vertex M p m)) = p) \<longrightarrow>
      sm_point M (mesh (snd (copy_vertex M v g))) (fst (copy_vertex M v g)) =
        sm_point M (mesh g) v) \<and>
   (copies g k = Some xs \<longrightarrow>
      (\<exists>ys. copies (snd (add_face M vs g)) k = Some (xs @ ys))) \<and>
   copies (snd (add_vertex M p g)) = copies g \<and>
   copies (fst (finish M g)) = copies g \<and>
   copies (begin_guard g) = Map.empty"
proof -
  have "copies g k = Some xs \<longrightarrow> (\<exists>ys. copies (snd (add_face M vs g)) k = Some (xs @ ys))"
    using add_face_grows[of g M vs] by (simp add: grows_def)
  then show ?thesis
    by (simp add: copy_vertex_eq finish_copies add_vertex_def begin_guard_def split: prod.split)
qed

theorem copies_only_grow_witness:
  "fst (copy_vertex hm_ops 1 guard_twice) = 5 \<and>
   copies (snd (copy_vertex hm_ops 1 guard_twice)) = (copies guard_twice)(1 \<mapsto> [4, 5]) \<and>
   sm_point hm_ops (mesh (snd (copy_vertex hm_ops 1 guard_twice))) 5 = (1, 0, 0) \<and>
   copies guard_twice 1 = Some [4] \<and>
   (\<exists>ys. copies (snd (add_face hm_ops [0, 1, 2] guard_twice)) 1 = Some ([4] @ ys)) \<and>
   copies (snd (add_face hm_ops [0, 1, 2] guard_twice)) 1 = Some [4, 5]"
proof -
  note T = copies_only_grow [of hm_ops "Suc 0" guard_twice "Suc 0" "[4]" "[0, Suc 0, 2]" "(0, 0, 0)"]
  have contract:
    "\<forall>p m. sm_point hm_ops (snd (sm_add_vertex hm_ops p m)) (fst (sm_add_vertex hm_ops p m)) = p"
    using hm_add_vertex_point by blast
  from T have a: "copies (snd (copy_vertex hm_ops (Suc 0) guard_twice)) =
     (copies guard_twice)(Suc 0 \<mapsto> [4, 5])"
    by (simp add: guard_twice_facts)
  from T contract have b: "sm_point hm_ops (mesh (snd (copy_vertex hm_ops (Suc 0) guard_twice)))
      (fst (copy_vertex hm_ops (Suc 0) guard_twice)) = sm_point hm_ops (mesh guard_twice) (Suc 0)"
    by blast
  from T have c: "\<exists>ys. copies (snd (add_face hm_ops [0, Suc 0, 2] guard_twice)) (Suc 0) = Some ([4] @ ys)"
    using guard_twice_facts(1) by blast
  from a b c show ?thesis
    by (simp add: guard_twice_facts)
qed

section \<open>finish (C8)\<close>

text \<open>
  C8. On a mesh whose vertex container holds each handle once and where deleting an
  isolated vertex does not change which other vertices are isolated, and with counters
  that are not negative (as \<^verbatim>\<open>begin\<close> and the increments leave them), \<^verbatim>\<open>finish\<close>
  deletes exactly the vertices that are isolated when it is called and compacts the mesh;
  the isolated-vertices counter goes up by the number of vertices deleted; the
  non-manifold-vertices counter goes up by the number of non-manifold vertices of the
  compacted mesh (from 0, as \<^verbatim>\<open>begin\<close> leaves it, to that number); the other three
  counters are unchanged; and a message is logged exactly when one of the five counters,
  as they are after the call, is not zero.
\<close>

theorem finish_effect:
  fixes M :: "('m, 'p, 'h) surface_mesh" and g :: "'m manifold_guard"
  defines "dead \<equiv> filter (sm_is_isolated M (mesh g)) (sm_vertices M (mesh g))"
  defines "m' \<equiv> sm_garbage_collection M (fold (sm_delete_vertex M) dead (mesh g))"
  defines "g' \<equiv> fst (finish M g)"
  assumes "\<forall>m v w. sm_is_isolated M m v \<and> w \<noteq> v \<longrightarrow>
            sm_is_isolated M (sm_delete_vertex M v m) w = sm_is_isolated M m w"
    and "distinct (sm_vertices M (mesh g))"
    and "0 \<le> num_faces_less_three_vertices g" and "0 \<le> num_faces_duplicated_vertices g"
    and "0 \<le> num_non_manifold_edges g" and "0 \<le> num_non_manifold_vertices g"
    and "0 \<le> num_isolated_vertices g"
  shows "mesh g' = m' \<and>
         num_isolated_vertices g' = num_isolated_vertices g + int (length dead) \<and>
         num_non_manifold_vertices g' =
           num_non_manifold_vertices g +
           int (length (filter (\<lambda>v. \<not> sm_is_manifold M m' v) (sm_vertices M m'))) \<and>
         num_faces_less_three_vertices g' = num_faces_less_three_vertices g \<and>
         num_faces_duplicated_vertices g' = num_faces_duplicated_vertices g \<and>
         num_non_manifold_edges g' = num_non_manifold_edges g \<and>
         (snd (finish M g) \<noteq> None \<longleftrightarrow>
            num_isolated_vertices g' \<noteq> 0 \<or> num_faces_less_three_vertices g' \<noteq> 0 \<or>
            num_faces_duplicated_vertices g' \<noteq> 0 \<or> num_non_manifold_edges g' \<noteq> 0 \<or>
            num_non_manifold_vertices g' \<noteq> 0)"
proof -
  let ?g1 = "fold (delete_if_isolated M) (sm_vertices M (mesh g)) g"
  have g1: "?g1 = g\<lparr>mesh := fold (sm_delete_vertex M) dead (mesh g),
                     num_isolated_vertices := num_isolated_vertices g + int (length dead)\<rparr>"
    unfolding dead_def by (rule fold_delete_if_isolated_eq[OF assms(4,5)])
  let ?g2 = "?g1\<lparr>mesh := sm_garbage_collection M (mesh ?g1)\<rparr>"
  have g2: "?g2 = g\<lparr>mesh := m',
                     num_isolated_vertices := num_isolated_vertices g + int (length dead)\<rparr>"
    by (simp add: g1 m'_def)
  let ?n = "int (length (filter (\<lambda>v. \<not> sm_is_manifold M m' v) (sm_vertices M m')))"
  have g3: "fold (count_if_non_manifold M) (sm_vertices M (mesh ?g2)) ?g2 =
              g\<lparr>mesh := m',
                num_isolated_vertices := num_isolated_vertices g + int (length dead),
                num_non_manifold_vertices := num_non_manifold_vertices g + ?n\<rparr>"
    unfolding g2 by (simp add: fold_count_if_non_manifold_eq)
  have fin: "finish M g =
      (g\<lparr>mesh := m',
         num_isolated_vertices := num_isolated_vertices g + int (length dead),
         num_non_manifold_vertices := num_non_manifold_vertices g + ?n\<rparr>,
       let r5 = report_counter (num_non_manifold_vertices g + ?n)
                  '' non_manifold vertices (not fixed)''
                 (report_counter (num_non_manifold_edges g) '' non_manifold edges (fixed)''
                 (report_counter (num_faces_duplicated_vertices g)
                    '' faces with duplicated vertices (ignored)''
                 (report_counter (num_faces_less_three_vertices g)
                    '' faces with less than 3 vertices (ignored)''
                 (report_counter (num_isolated_vertices g + int (length dead))
                    '' isolated vertices (removed)''
                    (''mesh has topological issues:'', False)))))
       in if snd r5 then Some (fst r5) else None)"
    unfolding finish_def Let_def g3 unfolding g2 by simp
  have msg: "snd (finish M g) \<noteq> None \<longleftrightarrow>
      0 < num_non_manifold_vertices g + ?n \<or> 0 < num_non_manifold_edges g \<or>
      0 < num_faces_duplicated_vertices g \<or> 0 < num_faces_less_three_vertices g \<or>
      0 < num_isolated_vertices g + int (length dead)"
    unfolding fin by (simp add: Let_def report_counter_snd)
  from assms(6-10) msg show ?thesis
    unfolding g'_def fin by auto
qed

theorem finish_effect_witness:
  "sm_vertices hm_ops (mesh guard_iso) = [0, 1, 2, 3] \<and>
   filter (sm_is_isolated hm_ops (mesh guard_iso)) (sm_vertices hm_ops (mesh guard_iso)) = [3] \<and>
   num_isolated_vertices guard_iso = 0 \<and>
   num_isolated_vertices (fst (finish hm_ops guard_iso)) = 1 \<and>
   sm_vertices hm_ops (mesh (fst (finish hm_ops guard_iso))) = [0, 1, 2] \<and>
   num_non_manifold_vertices (fst (finish hm_ops guard_iso)) =
     int (length (filter (\<lambda>v. \<not> sm_is_manifold hm_ops (mesh (fst (finish hm_ops guard_iso))) v)
            [0, 1, 2])) \<and>
   snd (finish hm_ops guard_iso) =
     Some (''mesh has topological issues:'' @ [CHR 0x0A, CHR 0x09] @
           ''1 isolated vertices (removed)'')"
proof -
  let ?dead = "filter (sm_is_isolated hm_ops (mesh guard_iso)) (sm_vertices hm_ops (mesh guard_iso))"
  let ?m' = "sm_garbage_collection hm_ops (fold (sm_delete_vertex hm_ops) ?dead (mesh guard_iso))"
  let ?g' = "fst (finish hm_ops guard_iso)"
  note T = finish_effect [OF hm_delete_isolated hm_vertices_distinct, of guard_iso]
  from T have m: "mesh ?g' = ?m'"
    by ((simp only: guard_iso_facts(2-6))?, simp?)
  from T have "num_isolated_vertices ?g' = num_isolated_vertices guard_iso + int (length ?dead)"
    by ((simp only: guard_iso_facts(2-6))?, simp?)
  then have a: "num_isolated_vertices ?g' = 1"
    by ((simp only: guard_iso_facts(1,6))?, simp?)
  from T have "num_non_manifold_vertices ?g' =
      num_non_manifold_vertices guard_iso +
      int (length (filter (\<lambda>v. \<not> sm_is_manifold hm_ops ?m' v) (sm_vertices hm_ops ?m')))"
    by ((simp only: guard_iso_facts(2-6))?, simp?)
  then have b: "num_non_manifold_vertices ?g' =
      int (length (filter (\<lambda>v. \<not> sm_is_manifold hm_ops (mesh ?g') v) [0, 1, 2]))"
    unfolding m [symmetric] by ((simp only: guard_iso_facts(5,8))?, simp?)
  from a b guard_iso_facts(1,6,7,8,9) show ?thesis
    by blast
qed

section \<open>Which copies are tried (C9)\<close>

text \<open>
  C9. Let \<open>a\<close> and \<open>b\<close> be the current entries \<open>s\<close> and \<open>t\<close> of the working list and let
  the edge from \<open>a\<close> to \<open>b\<close> be illegal. The vectors that the three trial steps walk are
  those registered under \<open>a\<close> and under \<open>b\<close>: the first copy registered under \<open>a\<close> that is
  legal with \<open>b\<close> replaces entry \<open>s\<close>; if there is none, the first copy registered under
  \<open>b\<close> that is legal with \<open>a\<close> replaces entry \<open>t\<close>; if there is none either, the first legal
  pair of the two vectors replaces both. No other key is read: with any other relation
  that has the same vectors under \<open>a\<close> and \<open>b\<close> the search has the same outcome, so the
  copies registered under the input vertex of an entry that has been replaced are not
  tried. Resolution writes the copy relation only under the input vertices of the
  positions \<open>s\<close> and \<open>t\<close>: when no existing copy fits and the entry \<open>s\<close> is copied
  (it is not a boundary vertex, or both entries are boundary vertices and entry \<open>s\<close> is
  still the input vertex), the new vertex, placed at the position of the input vertex of
  \<open>s\<close>, is appended under that input vertex; likewise for \<open>t\<close>.
\<close>

theorem copies_looked_up_by_current_entry:
  fixes M :: "('m, 'p, 'h) surface_mesh" and g :: "'m manifold_guard" and s t :: nat
  defines "a \<equiv> face_vertices g ! s" and "b \<equiv> face_vertices g ! t"
    and "orig_s \<equiv> input_face_vertices g ! s" and "orig_t \<equiv> input_face_vertices g ! t"
    and "legal \<equiv> halfedge_is_legel M (mesh g)"
    and "g0 \<equiv> g\<lparr>num_non_manifold_edges := num_non_manifold_edges g + 1\<rparr>"
    and "r \<equiv> find_or_duplicate_edge M s t g"
  defines "cs \<equiv> (case copies g a of None \<Rightarrow> [] | Some xs \<Rightarrow> xs)"
    and "ct \<equiv> (case copies g b of None \<Rightarrow> [] | Some xs \<Rightarrow> xs)"
    and "old_s \<equiv> (case copies g orig_s of None \<Rightarrow> [] | Some xs \<Rightarrow> xs)"
    and "old_t \<equiv> (case copies g orig_t of None \<Rightarrow> [] | Some xs \<Rightarrow> xs)"
    and "new_s \<equiv> fst (sm_add_vertex M (sm_point M (mesh g) orig_s) (mesh g))"
    and "new_t \<equiv> fst (sm_add_vertex M (sm_point M (mesh g) orig_t) (mesh g))"
  defines "no_copy_fits \<equiv>
      find (\<lambda>u. legal u b) cs = None \<and> find (\<lambda>u. legal a u) ct = None \<and>
      find (\<lambda>(x, y). legal x y) (List.product cs ct) = None"
  assumes illegal: "\<not> legal a b"
  shows
    "(find (\<lambda>u. legal u b) cs = Some v1 \<longrightarrow>
        r = g0\<lparr>face_vertices := (face_vertices g)[s := v1]\<rparr>) \<and>
     (find (\<lambda>u. legal u b) cs = None \<and> find (\<lambda>u. legal a u) ct = Some v2 \<longrightarrow>
        r = g0\<lparr>face_vertices := (face_vertices g)[t := v2]\<rparr>) \<and>
     (find (\<lambda>u. legal u b) cs = None \<and> find (\<lambda>u. legal a u) ct = None \<and>
      find (\<lambda>(x, y). legal x y) (List.product cs ct) = Some (vs, vt) \<longrightarrow>
        r = g0\<lparr>face_vertices := (face_vertices g)[s := vs, t := vt]\<rparr>) \<and>
     (c' a = copies g a \<and> c' b = copies g b \<longrightarrow>
        try_existing_copies M s t (g\<lparr>copies := c'\<rparr>) =
          map_option (\<lambda>x. x\<lparr>copies := c'\<rparr>) (try_existing_copies M s t g)) \<and>
     (k \<noteq> orig_s \<and> k \<noteq> orig_t \<longrightarrow> copies r k = copies g k) \<and>
     (no_copy_fits \<and>
      (\<not> sm_is_boundary M (mesh g) a \<or> (sm_is_boundary M (mesh g) b \<and> a = orig_s)) \<longrightarrow>
        (\<exists>ys. copies r orig_s = Some (old_s @ new_s # ys))) \<and>
     (no_copy_fits \<and> sm_is_boundary M (mesh g) a \<and>
      (\<not> sm_is_boundary M (mesh g) b \<or> (a \<noteq> orig_s \<and> b = orig_t)) \<longrightarrow>
        (\<exists>ys. copies r orig_t = Some (old_t @ new_t # ys))) \<and>
     replace_by_copy M i g =
       g\<lparr>mesh := snd (sm_add_vertex M (sm_point M (mesh g) (input_face_vertices g ! i)) (mesh g)),
         copies := (copies g)(input_face_vertices g ! i \<mapsto>
            (case copies g (input_face_vertices g ! i) of None \<Rightarrow> [] | Some cs \<Rightarrow> cs) @
            [fst (sm_add_vertex M (sm_point M (mesh g) (input_face_vertices g ! i)) (mesh g))]),
         face_vertices := (face_vertices g)
            [i := fst (sm_add_vertex M (sm_point M (mesh g) (input_face_vertices g ! i)) (mesh g))]\<rparr>"
proof -
  have r: "r = (case try_existing_copies M s t g0 of
                  Some g' \<Rightarrow> g'
                | None \<Rightarrow> (case copy_closed_disk M s t g0 of
                             Inl g' \<Rightarrow> g' | Inr g' \<Rightarrow> copy_both M s t g'))"
    using illegal
    unfolding r_def find_or_duplicate_edge_def legal_def a_def b_def g0_def Let_def
    by simp
  have sel: "mesh g0 = mesh g" "face_vertices g0 = face_vertices g" "copies g0 = copies g"
    by (simp_all add: g0_def)
  have try_eq: "try_existing_copies M s t g0 =
      (case find (\<lambda>v. legal v b) cs of
         Some v \<Rightarrow> Some (g0\<lparr>face_vertices := (face_vertices g)[s := v]\<rparr>)
       | None \<Rightarrow>
      (case find (\<lambda>v. legal a v) ct of
         Some v \<Rightarrow> Some (g0\<lparr>face_vertices := (face_vertices g)[t := v]\<rparr>)
       | None \<Rightarrow>
      (case find (\<lambda>(x, y). legal x y) (List.product cs ct) of
         Some (x, y) \<Rightarrow> Some (g0\<lparr>face_vertices := (face_vertices g)[s := x, t := y]\<rparr>)
       | None \<Rightarrow> None)))"
    unfolding try_existing_copies_find sel cs_def ct_def a_def b_def legal_def
    by (rule refl)
  have p1: "r = g0\<lparr>face_vertices := (face_vertices g)[s := v1]\<rparr>"
    if "find (\<lambda>u. legal u b) cs = Some v1"
    using that by (simp add: r try_eq)
  have p2: "r = g0\<lparr>face_vertices := (face_vertices g)[t := v2]\<rparr>"
    if "find (\<lambda>u. legal u b) cs = None" "find (\<lambda>u. legal a u) ct = Some v2"
    using that by (simp add: r try_eq)
  have p3: "r = g0\<lparr>face_vertices := (face_vertices g)[s := vs, t := vt]\<rparr>"
    if "find (\<lambda>u. legal u b) cs = None" "find (\<lambda>u. legal a u) ct = None"
      "find (\<lambda>(x, y). legal x y) (List.product cs ct) = Some (vs, vt)"
    using that by (simp add: r try_eq)
  have ni: "try_existing_copies M s t (g\<lparr>copies := c'\<rparr>) =
          map_option (\<lambda>x. x\<lparr>copies := c'\<rparr>) (try_existing_copies M s t g)"
    if "c' a = copies g a" "c' b = copies g b"
    using that
    by (simp add: a_def b_def try_existing_copies_def Let_def split: option.splits prod.splits)
  have fr: "copies r k = copies g k" if "k \<noteq> orig_s" "k \<noteq> orig_t"
    using find_or_duplicate_edge_only_at [of g s t M] that
    by (simp add: only_at_def r_def orig_s_def orig_t_def)
  have forced: "r = (case copy_closed_disk M s t g0 of
                       Inl g' \<Rightarrow> g' | Inr g' \<Rightarrow> copy_both M s t g')"
    if no_copy_fits
    using that by (simp add: r try_eq no_copy_fits_def)
  have rs: "copies (replace_by_copy M s g0) orig_s = Some (old_s @ [new_s])"
    by (simp add: replace_by_copy_eq g0_def orig_s_def old_s_def new_s_def)
  have rt: "copies (replace_by_copy M t g0) orig_t = Some (old_t @ [new_t])"
    by (simp add: replace_by_copy_eq g0_def orig_t_def old_t_def new_t_def)
  have fs: "\<exists>ys. copies r orig_s = Some (old_s @ new_s # ys)"
    if no_copy_fits
      "\<not> sm_is_boundary M (mesh g) a \<or> (sm_is_boundary M (mesh g) b \<and> a = orig_s)"
  proof -
    from that(2) have "keeps (replace_by_copy M s g0) r"
      unfolding forced [OF that(1)]
      by (intro forced_copy_of_s) (simp add: g0_def a_def b_def orig_s_def)
    then show ?thesis using rs by (rule keeps_appended)
  qed
  have ft: "\<exists>ys. copies r orig_t = Some (old_t @ new_t # ys)"
    if no_copy_fits "sm_is_boundary M (mesh g) a"
      "\<not> sm_is_boundary M (mesh g) b \<or> (a \<noteq> orig_s \<and> b = orig_t)"
  proof -
    from that(2,3) have "keeps (replace_by_copy M t g0) r"
      unfolding forced [OF that(1)]
      by (intro forced_copy_of_t) (simp_all add: g0_def a_def b_def orig_s_def orig_t_def)
    then show ?thesis using rt by (rule keeps_appended)
  qed
  from p1 p2 p3 ni fr fs ft replace_by_copy_eq [of M i g] show ?thesis by blast
qed

theorem copies_looked_up_by_current_entry_witness:
  "copies guard_edge0 2 = Some [5, 6] \<and>
   \<not> halfedge_is_legel hm_ops (mesh guard_edge0) 5 3 \<and>
   halfedge_is_legel hm_ops (mesh guard_edge0) 6 3 \<and>
   find_or_duplicate_edge hm_ops 0 1 guard_edge0 =
     guard_edge0\<lparr>num_non_manifold_edges := num_non_manifold_edges guard_edge0 + 1,
                 face_vertices := [6, 3, 0]\<rparr> \<and>
   input_face_vertices guard_wrap = [2, 3, 0] \<and> face_vertices guard_wrap = [6, 3, 0] \<and>
   copies guard_wrap 2 = Some [5, 6] \<and>
   halfedge_is_legel hm_ops (mesh guard_wrap) 0 5 \<and>
   \<not> halfedge_is_legel hm_ops (mesh guard_wrap) 0 6 \<and>
   try_existing_copies hm_ops 2 0 (guard_wrap\<lparr>copies := (copies guard_wrap)(2 := None)\<rparr>) =
     map_option (\<lambda>x. x\<lparr>copies := (copies guard_wrap)(2 := None)\<rparr>)
       (try_existing_copies hm_ops 2 0 guard_wrap) \<and>
   try_existing_copies hm_ops 2 0 guard_wrap = None \<and>
   (\<exists>ys. copies (find_or_duplicate_edge hm_ops 2 0 guard_wrap) 0 = Some (8 # ys)) \<and>
   copies (find_or_duplicate_edge hm_ops 2 0 guard_wrap) 6 = None \<and>
   face_vertices (find_or_duplicate_edge hm_ops 2 0 guard_wrap) = [6, 3, 8] \<and>
   face_vertices (snd (add_face hm_ops [2, 3, 0] guard_three_faces)) = [6, 3, 8]"
proof -
  note A = copies_looked_up_by_current_entry
    [where M = hm_ops and g = guard_edge0 and s = 0 and t = "Suc 0" and ?v1.0 = 6]
  have a: "find_or_duplicate_edge hm_ops 0 (Suc 0) guard_edge0 =
     guard_edge0\<lparr>num_non_manifold_edges := num_non_manifold_edges guard_edge0 + 1,
                 face_vertices := [6, 3, 0]\<rparr>"
    using A by (simp add: guard_edge0_facts)
  note B = copies_looked_up_by_current_entry
    [where M = hm_ops and g = guard_wrap and s = 2 and t = 0 and k = 6
      and c' = "(copies guard_wrap)(2 := None)"]
  have n: "try_existing_copies hm_ops 2 0 guard_wrap = None"
    by (simp add: try_existing_copies_def guard_wrap_facts)
  have b: "try_existing_copies hm_ops 2 0 (guard_wrap\<lparr>copies := (copies guard_wrap)(2 := None)\<rparr>) =
     map_option (\<lambda>x. x\<lparr>copies := (copies guard_wrap)(2 := None)\<rparr>)
       (try_existing_copies hm_ops 2 0 guard_wrap)"
    using B by (simp add: guard_wrap_facts)
  have c: "copies (find_or_duplicate_edge hm_ops 2 0 guard_wrap) 6 = None"
    using B by (simp add: guard_wrap_facts)
  have d: "\<exists>ys. copies (find_or_duplicate_edge hm_ops 2 0 guard_wrap) 0 = Some (8 # ys)"
    using B by (simp add: guard_wrap_facts)
  from a b c d n show ?thesis
    by (simp add: guard_edge0_facts guard_wrap_facts)
qed

end
